theory Spec2Isabelle
  imports Complex_Main "HOL-Library.AList"
begin

section \<open>Data model\<close>

text \<open>
  A \<^verbatim>\<open>datetime\<close> is a timezone-aware UTC instant; the services only compare instants
  (\<^verbatim>\<open><\<close>, \<^verbatim>\<open><=\<close>, \<^verbatim>\<open>==\<close>), so an instant is modelled by its number of microseconds since
  the epoch. A \<^verbatim>\<open>datetime\<close> object is always truthy in Python, hence \<^verbatim>\<open>if x:\<close> on an
  \<^verbatim>\<open>Optional[datetime]\<close> is a test for \<^verbatim>\<open>None\<close>. Python \<^verbatim>\<open>float\<close> columns are only copied and
  tested for truthiness by the telematics service and are modelled as \<open>real\<close>.
\<close>

type_synonym datetime = int

text \<open>
  The exceptions: the two the services raise themselves, with their message, and the two the
  session raises. \<open>IntegrityError\<close> comes from a flush whose \<^verbatim>\<open>INSERT\<close> violates a foreign
  key; \<open>PendingRollbackError\<close> comes from any statement of a session whose transaction a
  failed flush has rolled back. The text of the latter two is the library's.
\<close>

datatype error =
    TelematicsServiceError string
  | ActivityServiceError string
  | IntegrityError
  | PendingRollbackError

text \<open>\<^verbatim>\<open>models/vehicle.py\<close>: the primary key and the real-time tracking columns of \<^verbatim>\<open>Vehicle\<close>
  (the columns no service writes are left out). \<open>current_position\<close> holds the pair
  \<open>(lon, lat)\<close> of \<^verbatim>\<open>WKTElement(f"POINT({lon} {lat})")\<close>.\<close>

record Vehicle =
  v_id :: int
  last_seen :: "datetime option"
  current_position :: "(real \<times> real) option"
  current_speed :: "real option"
  current_heading :: "real option"
  total_odometer :: "real option"

text \<open>\<^verbatim>\<open>models/driver.py\<close>: primary key and name.\<close>

record Driver =
  d_id :: int
  d_name :: string

text \<open>\<^verbatim>\<open>schemas/telematics.py\<close>, \<^verbatim>\<open>GPSPositionCreate\<close>.\<close>

record GPSPositionCreate =
  vehicle_id :: int
  driver_id :: "int option"
  lat :: real
  lon :: real
  speed :: "real option"
  heading :: "real option"
  odometer :: "real option"
  ignition :: "bool option"
  timestamp :: datetime

text \<open>\<^verbatim>\<open>models/gps_position.py\<close>, a row of \<^verbatim>\<open>gps_positions\<close>.\<close>

record GPSPosition =
  gps_id :: int
  gps_vehicle_id :: int
  gps_driver_id :: "int option"
  gps_timestamp :: datetime
  location :: "real \<times> real"
  gps_speed :: "real option"
  gps_heading :: "real option"
  gps_odometer :: "real option"
  ignition_status :: bool

text \<open>\<^verbatim>\<open>schemas/telematics.py\<close>, \<^verbatim>\<open>IngestionStats\<close>.\<close>

record IngestionStats =
  total_received :: int
  successfully_processed :: int
  failed :: int
  errors :: "string list"

text \<open>\<^verbatim>\<open>models/driver_activity.py\<close>.\<close>

datatype ActivityType = DRIVING | REST | WORK | AVAILABILITY | BREAK | UNKNOWN

datatype ActivitySource = TACHOGRAPH | MANUAL | GPS_INFERRED

text \<open>
  A row of \<^verbatim>\<open>driver_activities\<close>. The only writer of \<^verbatim>\<open>raw_data\<close> is
  \<^verbatim>\<open>fuse_gps_with_activities\<close>, which keeps there the JSON text of a list of
  \<^verbatim>\<open>{"gps_id": .., "timestamp": ..}\<close> objects; the column is modelled by the list that text
  denotes (\<open>None\<close> for SQL \<^verbatim>\<open>NULL\<close>), a reference being the pair of the position's id and
  timestamp.
\<close>

record DriverActivity =
  a_id :: int
  a_driver_id :: int
  a_vehicle_id :: "int option"
  activity_type :: ActivityType
  source :: ActivitySource
  start_time :: datetime
  end_time :: datetime
  duration_minutes :: int
  odometer_start :: "real option"
  odometer_end :: "real option"
  distance_km :: "real option"
  source_file :: "string option"
  card_number :: "string option"
  raw_data :: "(int \<times> datetime) list option"

text \<open>
  The relational store behind the \<^verbatim>\<open>AsyncSession\<close>: one list of rows per table, in insertion
  order, and the two sequences that hand out primary keys.
\<close>

record db =
  vehicles :: "Vehicle list"
  drivers :: "Driver list"
  gps_positions :: "GPSPosition list"
  driver_activities :: "DriverActivity list"
  gps_positions_id_seq :: int
  driver_activities_id_seq :: int

section \<open>Python's \<^verbatim>\<open>str\<close> on integers\<close>

fun str_nat :: "nat \<Rightarrow> string" where
  "str_nat n = (if n < 10 then [''0123456789'' ! n]
                else str_nat (n div 10) @ [''0123456789'' ! (n mod 10)])"

declare str_nat.simps [simp del]

definition str_int :: "int \<Rightarrow> string" where
  "str_int i = (if i < 0 then CHR ''-'' # str_nat (nat (- i)) else str_nat (nat i))"

section \<open>Telematics service\<close>

text \<open>\<^verbatim>\<open>_get_vehicle\<close>, \<^verbatim>\<open>_get_driver\<close>: \<^verbatim>\<open>select(..).where(id == ..)\<close>, \<^verbatim>\<open>scalar_one_or_none()\<close>.
  The ids looked up are taken within the range of the \<^verbatim>\<open>Integer\<close> columns.\<close>

definition get_vehicle :: "db \<Rightarrow> int \<Rightarrow> Vehicle option" where
  "get_vehicle s vehicle_id' = find (\<lambda>v. v_id v = vehicle_id') (vehicles s)"

definition get_driver :: "db \<Rightarrow> int \<Rightarrow> Driver option" where
  "get_driver s driver_id' = find (\<lambda>d. d_id d = driver_id') (drivers s)"

text \<open>
  \<^verbatim>\<open>_update_vehicle_position\<close>. \<^verbatim>\<open>vehicle.last_seen and position.timestamp <= vehicle.last_seen\<close>
  returns early; \<^verbatim>\<open>if position.odometer:\<close> is false for \<^verbatim>\<open>None\<close> and for \<^verbatim>\<open>0.0\<close>.
\<close>

definition update_vehicle_position :: "Vehicle \<Rightarrow> GPSPositionCreate \<Rightarrow> Vehicle" where
  "update_vehicle_position vehicle position =
     (if (case last_seen vehicle of None \<Rightarrow> False | Some ls \<Rightarrow> timestamp position \<le> ls)
      then vehicle
      else
        let vehicle = vehicle\<lparr>last_seen := Some (timestamp position),
                               current_position := Some (lon position, lat position),
                               current_speed := speed position,
                               current_heading := heading position\<rparr>
        in (case odometer position of
              None \<Rightarrow> vehicle
            | Some od \<Rightarrow> if od \<noteq> 0 then vehicle\<lparr>total_odometer := Some od\<rparr> else vehicle))"

text \<open>
  The mutated ORM object is written back to the row it was loaded from: the first (by the
  primary key, the only) row with its id, the one \<^verbatim>\<open>scalar_one_or_none()\<close> returned.
\<close>

fun write_row :: "('a \<Rightarrow> bool) \<Rightarrow> 'a \<Rightarrow> 'a list \<Rightarrow> 'a list" where
  "write_row P x [] = []"
| "write_row P x (y # ys) = (if P y then x # ys else y # write_row P x ys)"

definition flush_vehicle :: "db \<Rightarrow> Vehicle \<Rightarrow> db" where
  "flush_vehicle s vehicle =
     s\<lparr>vehicles := write_row (\<lambda>v. v_id v = v_id vehicle) vehicle (vehicles s)\<rparr>"

text \<open>The \<^verbatim>\<open>GPSPosition(...)\<close> constructor call of \<^verbatim>\<open>ingest_position\<close>, with the primary key
  the insert assigns.\<close>

definition new_gps_position :: "int \<Rightarrow> GPSPositionCreate \<Rightarrow> GPSPosition" where
  "new_gps_position i position =
     \<lparr>gps_id = i,
      gps_vehicle_id = vehicle_id position,
      gps_driver_id = driver_id position,
      gps_timestamp = timestamp position,
      location = (lon position, lat position),
      gps_speed = speed position,
      gps_heading = heading position,
      gps_odometer = odometer position,
      ignition_status = (case ignition position of None \<Rightarrow> False | Some b \<Rightarrow> b)\<rparr>"

definition add_gps_position :: "db \<Rightarrow> GPSPositionCreate \<Rightarrow> db \<times> GPSPosition" where
  "add_gps_position s position =
     (let g = new_gps_position (gps_positions_id_seq s) position
      in (s\<lparr>gps_positions := gps_positions s @ [g],
            gps_positions_id_seq := gps_positions_id_seq s + 1\<rparr>, g))"

text \<open>
  \<^verbatim>\<open>models/gps_position.py\<close>: \<^verbatim>\<open>vehicle_id\<close> is a \<^verbatim>\<open>ForeignKey("vehicles.id")\<close> and
  \<^verbatim>\<open>driver_id\<close> a nullable \<^verbatim>\<open>ForeignKey("drivers.id")\<close>. The flush that inserts a row whose
  vehicle, or whose driver when it has one, is no row of its table raises \<^verbatim>\<open>IntegrityError\<close>.
\<close>

definition violates_foreign_key :: "db \<Rightarrow> GPSPosition \<Rightarrow> bool" where
  "violates_foreign_key s g \<longleftrightarrow>
     get_vehicle s (gps_vehicle_id g) = None \<or>
     (case gps_driver_id g of None \<Rightarrow> False | Some d \<Rightarrow> get_driver s d = None)"

text \<open>
  \<^verbatim>\<open>ingest_position\<close>. \<^verbatim>\<open>if position.driver_id:\<close> is Python truthiness of an
  \<^verbatim>\<open>Optional[int]\<close>: false for \<^verbatim>\<open>None\<close> and for \<^verbatim>\<open>0\<close>. \<open>missing_driver\<close> is the driver
  check: the id that was looked up and not found, if any. The two
  \<^verbatim>\<open>TelematicsServiceError\<close>s are raised before anything is added to the session, and
  \<^verbatim>\<open>await self.db.flush()\<close> raises when the new row violates a foreign key, which undoes
  what the call has written: an error carries no new store.
\<close>

definition missing_driver :: "db \<Rightarrow> GPSPositionCreate \<Rightarrow> int option" where
  "missing_driver s position =
     (case driver_id position of
        None \<Rightarrow> None
      | Some d \<Rightarrow> if d \<noteq> 0 \<and> get_driver s d = None then Some d else None)"

definition ingest_position :: "db \<Rightarrow> GPSPositionCreate \<Rightarrow> bool \<Rightarrow> error + (db \<times> GPSPosition)" where
  "ingest_position s position update_vehicle =
     (case get_vehicle s (vehicle_id position) of
        None \<Rightarrow> Inl (TelematicsServiceError
                  (''Vehicle '' @ str_int (vehicle_id position) @ '' not found''))
      | Some vehicle \<Rightarrow>
          (case missing_driver s position of
             Some d \<Rightarrow> Inl (TelematicsServiceError (''Driver '' @ str_int d @ '' not found''))
           | None \<Rightarrow>
               let (s', gps_position) = add_gps_position s position;
                   s' = (if update_vehicle
                         then flush_vehicle s' (update_vehicle_position vehicle position)
                         else s')
               in if violates_foreign_key s gps_position then Inl IntegrityError
                  else Inr (s', gps_position)))"

text \<open>
  \<^verbatim>\<open>ingest_batch\<close>, first loop. \<^verbatim>\<open>vehicle_latest\<close> is a \<^verbatim>\<open>dict\<close>, which keeps its keys in
  insertion order: an association list, where \<open>AList.update\<close> replaces the value of a
  present key in place and appends an absent one. The entry of \<^verbatim>\<open>vehicle_latest\<close> is
  written before \<^verbatim>\<open>ingest_position\<close> is called, inside the same \<^verbatim>\<open>try\<close>.
\<close>

definition track_latest ::
  "(int \<times> GPSPositionCreate) list \<Rightarrow> GPSPositionCreate \<Rightarrow> (int \<times> GPSPositionCreate) list" where
  "track_latest vehicle_latest position =
     (case map_of vehicle_latest (vehicle_id position) of
        None \<Rightarrow> AList.update (vehicle_id position) position vehicle_latest
      | Some current_latest \<Rightarrow>
          if timestamp position > timestamp current_latest
          then AList.update (vehicle_id position) position vehicle_latest
          else vehicle_latest)"

text \<open>
  The whole batch runs in the one transaction of the request's session. \<open>s0\<close> is the store
  when the transaction began, \<open>s\<close> the store as the session sees it, and \<open>active\<close> tells
  whether the session can still execute statements. The clause
  \<^verbatim>\<open>except TelematicsServiceError\<close> collects the message of a failed check and the session
  goes on. An exception of the flush inside \<^verbatim>\<open>ingest_position\<close> is caught by
  \<^verbatim>\<open>except Exception\<close>, but the failed flush has rolled the transaction back: what the
  earlier positions wrote is gone and the session is no longer active, so for every later
  position the first query of \<^verbatim>\<open>ingest_position\<close> raises \<^verbatim>\<open>PendingRollbackError\<close>, which the
  same clause catches. Only the sequence is outside the transaction: the keys it has
  handed out, the one of the refused row included, are not given back. \<^verbatim>\<open>str(e)\<close> of an
  exception of the library is the parameter \<open>str_exc\<close>.
\<close>

fun ingest_batch_positions ::
  "(error \<Rightarrow> string) \<Rightarrow> db \<Rightarrow> db \<Rightarrow> bool \<Rightarrow> IngestionStats \<Rightarrow> (int \<times> GPSPositionCreate) list
     \<Rightarrow> GPSPositionCreate list \<Rightarrow> db \<times> bool \<times> IngestionStats \<times> (int \<times> GPSPositionCreate) list" where
  "ingest_batch_positions str_exc s0 s active stats vehicle_latest [] =
     (s, active, stats, vehicle_latest)"
| "ingest_batch_positions str_exc s0 s active stats vehicle_latest (position # positions) =
     (let vehicle_latest = track_latest vehicle_latest position
      in if \<not> active
         then ingest_batch_positions str_exc s0 s False
                (stats\<lparr>failed := failed stats + 1,
                       errors := errors stats
                         @ [''Unexpected error: '' @ str_exc PendingRollbackError]\<rparr>)
                vehicle_latest positions
         else
           case ingest_position s position False of
             Inr (s', _) \<Rightarrow>
               ingest_batch_positions str_exc s0 s' True
                 (stats\<lparr>successfully_processed := successfully_processed stats + 1\<rparr>)
                 vehicle_latest positions
           | Inl (TelematicsServiceError e) \<Rightarrow>
               ingest_batch_positions str_exc s0 s True
                 (stats\<lparr>failed := failed stats + 1, errors := errors stats @ [e]\<rparr>)
                 vehicle_latest positions
           | Inl e \<Rightarrow>
               ingest_batch_positions str_exc s0
                 (s0\<lparr>gps_positions_id_seq := gps_positions_id_seq s + 1\<rparr>) False
                 (stats\<lparr>failed := failed stats + 1,
                        errors := errors stats @ [''Unexpected error: '' @ str_exc e]\<rparr>)
                 vehicle_latest positions)"

text \<open>
  \<^verbatim>\<open>ingest_batch\<close>, second loop:
  \<^verbatim>\<open>for vehicle_id, latest_position in vehicle_latest.items()\<close>. On a session that is no
  longer active \<^verbatim>\<open>_get_vehicle\<close> raises, and the \<^verbatim>\<open>except\<close> of this loop collects the message
  without counting a failure.
\<close>

fun update_latest_vehicles ::
  "(error \<Rightarrow> string) \<Rightarrow> bool \<Rightarrow> db \<Rightarrow> IngestionStats \<Rightarrow> (int \<times> GPSPositionCreate) list
     \<Rightarrow> db \<times> IngestionStats" where
  "update_latest_vehicles str_exc active s stats [] = (s, stats)"
| "update_latest_vehicles str_exc active s stats ((vehicle_id', latest_position) # rest) =
     (if \<not> active
      then update_latest_vehicles str_exc active s
             (stats\<lparr>errors := errors stats
                      @ [''Failed to update vehicle '' @ str_int vehicle_id' @ '': ''
                           @ str_exc PendingRollbackError]\<rparr>)
             rest
      else
        case get_vehicle s vehicle_id' of
          None \<Rightarrow> update_latest_vehicles str_exc active s stats rest
        | Some vehicle \<Rightarrow>
            update_latest_vehicles str_exc active
              (flush_vehicle s (update_vehicle_position vehicle latest_position)) stats rest)"

text \<open>\<^verbatim>\<open>ingest_batch\<close>. The closing flush of a session that was rolled back has nothing to
  write, and the tables are those the transaction began with.\<close>

definition ingest_batch ::
  "(error \<Rightarrow> string) \<Rightarrow> db \<Rightarrow> GPSPositionCreate list \<Rightarrow> db \<times> IngestionStats" where
  "ingest_batch str_exc s positions =
     (let stats = \<lparr>total_received = int (length positions), successfully_processed = 0,
                   failed = 0, errors = []\<rparr>;
          (s', active, stats, vehicle_latest) =
            ingest_batch_positions str_exc s s True stats [] positions
      in update_latest_vehicles str_exc active s' stats vehicle_latest)"

text \<open>
  \<^verbatim>\<open>api/telematics.py\<close>: the two ingestion endpoints as transitions of the store. The single
  endpoint calls \<^verbatim>\<open>ingest_position(position)\<close> with the default \<^verbatim>\<open>update_vehicle=True\<close>; an
  exception ends the request without a commit and leaves the tables as they were (a
  refused insert has used up a key of the sequence). The batch endpoint returns the
  statistics of \<^verbatim>\<open>ingest_batch\<close>.
\<close>

datatype call = IngestOne GPSPositionCreate | IngestBatch "GPSPositionCreate list"

fun run_call :: "(error \<Rightarrow> string) \<Rightarrow> db \<Rightarrow> call \<Rightarrow> db" where
  "run_call str_exc s (IngestOne position) =
     (case ingest_position s position True of
        Inr (s', _) \<Rightarrow> s'
      | Inl IntegrityError \<Rightarrow> s\<lparr>gps_positions_id_seq := gps_positions_id_seq s + 1\<rparr>
      | Inl _ \<Rightarrow> s)"
| "run_call str_exc s (IngestBatch positions) = fst (ingest_batch str_exc s positions)"


text \<open>The \<^verbatim>\<open>last_seen\<close> stored for a vehicle id, and the order of two such readings
  (\<^verbatim>\<open>None\<close>, never seen, comes before every instant).\<close>

definition last_seen_of :: "db \<Rightarrow> int \<Rightarrow> datetime option" where
  "last_seen_of s i = (case get_vehicle s i of None \<Rightarrow> None | Some v \<Rightarrow> last_seen v)"

definition not_after :: "datetime option \<Rightarrow> datetime option \<Rightarrow> bool" where
  "not_after a b =
     (case a of None \<Rightarrow> True | Some x \<Rightarrow> (case b of None \<Rightarrow> False | Some y \<Rightarrow> x \<le> y))"

text \<open>
  The precondition of ingestion on the driver: a driver id that is given is the id of a
  driver. And the positions of a batch that a flush refuses.
\<close>

definition driver_known :: "db \<Rightarrow> GPSPositionCreate \<Rightarrow> bool" where
  "driver_known s position \<longleftrightarrow>
     (case driver_id position of None \<Rightarrow> True | Some d \<Rightarrow> get_driver s d \<noteq> None)"

definition refused_at_flush :: "db \<Rightarrow> GPSPositionCreate \<Rightarrow> bool" where
  "refused_at_flush s position \<longleftrightarrow> ingest_position s position False = Inl IntegrityError"

text \<open>The text the first loop collects for a failed check, and the rows a list of accepted
  positions becomes when the sequence stands at \<open>i\<close>.\<close>

fun message_of :: "error \<Rightarrow> string" where
  "message_of (TelematicsServiceError m) = m"
| "message_of (ActivityServiceError m) = m"
| "message_of IntegrityError = []"
| "message_of PendingRollbackError = []"

fun inserted_rows :: "int \<Rightarrow> GPSPositionCreate list \<Rightarrow> GPSPosition list" where
  "inserted_rows i [] = []"
| "inserted_rows i (p # ps) = new_gps_position i p # inserted_rows (i + 1) ps"

section \<open>Activity service\<close>

text \<open>\<^verbatim>\<open>schemas/tachograph.py\<close>: \<^verbatim>\<open>ActivityRecord\<close>, the two fields of \<^verbatim>\<open>TachographParseResult\<close>
  the service reads, \<^verbatim>\<open>DriverActivityCreate\<close> and \<^verbatim>\<open>ActivitySummary\<close>.\<close>

record ActivityRecord =
  r_activity_type :: ActivityType
  r_start_time :: datetime
  r_end_time :: datetime
  r_duration_minutes :: int
  r_odometer_start :: "real option"
  r_odometer_end :: "real option"
  r_distance_km :: "real option"

record TachographParseResult =
  p_card_number :: "string option"
  activities :: "ActivityRecord list"


record ActivitySummary =
  s_driver_id :: int
  driver_name :: string
  period_start :: datetime
  period_end :: datetime
  total_driving_hours :: real
  total_rest_hours :: real
  total_work_hours :: real
  total_distance_km :: real
  violations :: "string list"

text \<open>
  \<^verbatim>\<open>_find_overlapping_activity\<close>, given the rows the query sees: \<^verbatim>\<open>.limit(1)\<close> without an
  \<^verbatim>\<open>ORDER BY\<close> returns some matching row, here the first in table order.
\<close>

definition overlapping :: "int \<Rightarrow> datetime \<Rightarrow> datetime \<Rightarrow> DriverActivity \<Rightarrow> bool" where
  "overlapping driver_id' start_time' end_time' a \<longleftrightarrow>
     a_driver_id a = driver_id' \<and> start_time a < end_time' \<and> end_time a > start_time'"







text \<open>
  \<^verbatim>\<open>get_driver_activities\<close>: the optional filters, then
  \<^verbatim>\<open>order_by(DriverActivity.start_time.desc())\<close>. Every \<^verbatim>\<open>ActivityType\<close> member and every
  \<^verbatim>\<open>datetime\<close> is truthy, so each \<^verbatim>\<open>if\<close> tests for \<^verbatim>\<open>None\<close>. SQL leaves the order of rows
  with equal \<^verbatim>\<open>start_time\<close> open; the stable sort keeps them in table order.
\<close>

definition get_driver_activities ::
  "db \<Rightarrow> int \<Rightarrow> datetime option \<Rightarrow> datetime option \<Rightarrow> ActivityType option
     \<Rightarrow> DriverActivity list" where
  "get_driver_activities s driver_id' start_date end_date activity_type' =
     sort_key (\<lambda>a. - start_time a)
       (filter (\<lambda>a. a_driver_id a = driver_id' \<and>
                    (case start_date of None \<Rightarrow> True | Some sd \<Rightarrow> start_time a \<ge> sd) \<and>
                    (case end_date of None \<Rightarrow> True | Some ed \<Rightarrow> end_time a \<le> ed) \<and>
                    (case activity_type' of None \<Rightarrow> True | Some t \<Rightarrow> activity_type a = t))
          (driver_activities s))"

text \<open>
  \<^verbatim>\<open>get_activity_summary\<close>. The minute totals are Python integers and \<^verbatim>\<open>/ 60\<close> is true
  division; for the integer totals a 32-bit column can sum to, the rounded quotient
  compares with \<^verbatim>\<open>9\<close> and \<^verbatim>\<open>10\<close> as the exact one does, so the hours are the exact
  quotients. The \<^verbatim>\<open>:.1f\<close> rendering of the hours is the parameter \<open>fmt_1f\<close>.
\<close>

definition get_activity_summary ::
  "(real \<Rightarrow> string) \<Rightarrow> db \<Rightarrow> int \<Rightarrow> datetime \<Rightarrow> datetime \<Rightarrow> error + ActivitySummary" where
  "get_activity_summary fmt_1f s driver_id' start_date end_date =
     (case get_driver s driver_id' of
        None \<Rightarrow> Inl (ActivityServiceError (''Driver '' @ str_int driver_id' @ '' not found''))
      | Some driver \<Rightarrow>
          let activities = get_driver_activities s driver_id' (Some start_date) (Some end_date) None;
              driving_minutes = sum_list (map duration_minutes
                                  (filter (\<lambda>a. activity_type a = DRIVING) activities));
              rest_minutes = sum_list (map duration_minutes
                                  (filter (\<lambda>a. activity_type a \<in> set [REST, BREAK]) activities));
              work_minutes = sum_list (map duration_minutes
                                  (filter (\<lambda>a. activity_type a = WORK) activities));
              distance = sum_list (map (\<lambda>a. case distance_km a of None \<Rightarrow> 0 | Some x \<Rightarrow> x)
                                  activities);
              daily_driving_hours = real_of_int driving_minutes / 60;
              violations =
                (if daily_driving_hours > 10
                 then [''Exceeded maximum daily driving limit: '' @ fmt_1f daily_driving_hours
                         @ ''h'']
                 else if daily_driving_hours > 9
                 then [''Extended daily driving: '' @ fmt_1f daily_driving_hours
                         @ ''h (max 2x/week)'']
                 else [])
          in Inr \<lparr>s_driver_id = driver_id',
                  driver_name = d_name driver,
                  period_start = start_date,
                  period_end = end_date,
                  total_driving_hours = real_of_int driving_minutes / 60,
                  total_rest_hours = real_of_int rest_minutes / 60,
                  total_work_hours = real_of_int work_minutes / 60,
                  total_distance_km = distance,
                  violations = violations\<rparr>)"

text \<open>
  \<^verbatim>\<open>fuse_gps_with_activities\<close>. \<open>associate\<close> is the inner \<^verbatim>\<open>for activity in activities\<close> with
  its \<^verbatim>\<open>break\<close>: it returns the list with the matched activity's \<^verbatim>\<open>raw_data\<close> extended, and
  whether there was a match. \<^verbatim>\<open>if not activity.raw_data\<close> starts from the empty list.
  \<open>associate_all\<close> is the outer loop over the positions, counting the matches.
\<close>

fun associate :: "GPSPosition \<Rightarrow> DriverActivity list \<Rightarrow> DriverActivity list \<times> bool" where
  "associate gps [] = ([], False)"
| "associate gps (activity # rest) =
     (if start_time activity \<le> gps_timestamp gps \<and> gps_timestamp gps \<le> end_time activity
      then
        (let data = (case raw_data activity of None \<Rightarrow> [] | Some d \<Rightarrow> d)
         in (activity\<lparr>raw_data := Some (data @ [(gps_id gps, gps_timestamp gps)])\<rparr> # rest,
             True))
      else (let (rest', found) = associate gps rest in (activity # rest', found)))"

fun associate_all ::
  "GPSPosition list \<Rightarrow> DriverActivity list \<Rightarrow> int \<Rightarrow> DriverActivity list \<times> int" where
  "associate_all [] activities' associated_count = (activities', associated_count)"
| "associate_all (gps # rest) activities' associated_count =
     (let (activities', found) = associate gps activities'
      in associate_all rest activities'
           (if found then associated_count + 1 else associated_count))"

text \<open>The positions query of \<^verbatim>\<open>fuse_gps_with_activities\<close> (a \<^verbatim>\<open>NULL\<close> driver matches no id).\<close>

definition fuse_gps_positions :: "db \<Rightarrow> int \<Rightarrow> datetime \<Rightarrow> datetime \<Rightarrow> GPSPosition list" where
  "fuse_gps_positions s driver_id' start_time' end_time' =
     filter (\<lambda>g. gps_driver_id g = Some driver_id' \<and>
                  gps_timestamp g \<ge> start_time' \<and> gps_timestamp g \<le> end_time')
       (gps_positions s)"

text \<open>The flush writes every loaded activity object back to its row.\<close>

definition flush_activities :: "db \<Rightarrow> DriverActivity list \<Rightarrow> db" where
  "flush_activities s activities' =
     s\<lparr>driver_activities :=
         foldl (\<lambda>rows a. write_row (\<lambda>x. a_id x = a_id a) a rows) (driver_activities s)
           activities'\<rparr>"

definition fuse_gps_with_activities :: "db \<Rightarrow> int \<Rightarrow> datetime \<Rightarrow> datetime \<Rightarrow> db \<times> int" where
  "fuse_gps_with_activities s driver_id' start_time' end_time' =
     (let activities' = get_driver_activities s driver_id' (Some start_time') (Some end_time') None
      in if activities' = [] then (s, 0)
         else
           let gps_positions' = fuse_gps_positions s driver_id' start_time' end_time';
               (activities', associated_count) = associate_all gps_positions' activities' 0
           in (if associated_count > 0 then flush_activities s activities' else s,
               associated_count))"

section \<open>Notions the properties are stated with\<close>

text \<open>A message begins with a given text.\<close>

definition starts_with :: "string \<Rightarrow> string \<Rightarrow> bool" where
  "starts_with pre m \<longleftrightarrow> take (length pre) m = pre"

text \<open>
  The stored rows are pairwise free of overlap (the overlap test is symmetric in the two
  rows), and the store after a sequence of \<^verbatim>\<open>create_activity\<close> requests, a request that
  fails leaving the store as it was.
\<close>

fun non_overlapping :: "DriverActivity list \<Rightarrow> bool" where
  "non_overlapping [] \<longleftrightarrow> True"
| "non_overlapping (a # rows) \<longleftrightarrow>
     (\<forall>b\<in>set rows. \<not> overlapping (a_driver_id a) (start_time a) (end_time a) b) \<and>
     non_overlapping rows"




text \<open>
  Fusion: the bounds of an activity contain the timestamp of a position, both ends
  included; the references an activity carries; an activity with references appended; and
  the id of the first activity of a list, in scan order, that contains a position.
\<close>

definition covers :: "GPSPosition \<Rightarrow> DriverActivity \<Rightarrow> bool" where
  "covers g a \<longleftrightarrow> start_time a \<le> gps_timestamp g \<and> gps_timestamp g \<le> end_time a"

definition annotations :: "DriverActivity \<Rightarrow> (int \<times> datetime) list" where
  "annotations a = (case raw_data a of None \<Rightarrow> [] | Some d \<Rightarrow> d)"

definition with_refs :: "DriverActivity \<Rightarrow> (int \<times> datetime) list \<Rightarrow> DriverActivity" where
  "with_refs a refs = (if refs = [] then a else a\<lparr>raw_data := Some (annotations a @ refs)\<rparr>)"

definition first_match :: "GPSPosition \<Rightarrow> DriverActivity list \<Rightarrow> int option" where
  "first_match g activities' = map_option a_id (find (covers g) activities')"

definition refs_of :: "GPSPosition list \<Rightarrow> DriverActivity list \<Rightarrow> int \<Rightarrow> (int \<times> datetime) list" where
  "refs_of gs activities' i =
     map (\<lambda>g. (gps_id g, gps_timestamp g)) (filter (\<lambda>g. first_match g activities' = Some i) gs)"

section \<open>Example data\<close>

text \<open>A small store and the inputs the theorems below are run on: two vehicles, the first never
  seen and the second last seen at instant \<open>500\<close>, and one driver, with id \<open>1\<close>.\<close>

definition example_vehicle :: "int \<Rightarrow> datetime option \<Rightarrow> Vehicle" where
  "example_vehicle i seen =
     \<lparr>v_id = i, last_seen = seen, current_position = None, current_speed = None,
      current_heading = None, total_odometer = None\<rparr>"

definition example_position :: "int \<Rightarrow> int option \<Rightarrow> datetime \<Rightarrow> GPSPositionCreate" where
  "example_position v d t =
     \<lparr>vehicle_id = v, driver_id = d, lat = 48, lon = 2, speed = Some 50, heading = Some 90,
      odometer = None, ignition = Some True, timestamp = t\<rparr>"

definition example_db :: db where
  "example_db =
     \<lparr>vehicles = [example_vehicle 1 None, example_vehicle 2 (Some 500)],
      drivers = [\<lparr>d_id = 1, d_name = ''Ann''\<rparr>],
      gps_positions = [],
      driver_activities = [],
      gps_positions_id_seq = 1,
      driver_activities_id_seq = 1\<rparr>"

text \<open>A rendering of the exceptions of the library, for the examples.\<close>

fun example_str_exc :: "error \<Rightarrow> string" where
  "example_str_exc (TelematicsServiceError m) = m"
| "example_str_exc (ActivityServiceError m) = m"
| "example_str_exc IntegrityError = ''IntegrityError''"
| "example_str_exc PendingRollbackError = ''PendingRollbackError''"

definition example_activity ::
  "int \<Rightarrow> int \<Rightarrow> ActivityType \<Rightarrow> datetime \<Rightarrow> datetime \<Rightarrow> DriverActivity" where
  "example_activity i d t a b =
     \<lparr>a_id = i, a_driver_id = d, a_vehicle_id = None, activity_type = t, source = TACHOGRAPH,
      start_time = a, end_time = b, duration_minutes = b - a, odometer_start = None,
      odometer_end = None, distance_km = None, source_file = None, card_number = None,
      raw_data = None\<rparr>"



definition example_gps :: "int \<Rightarrow> int \<Rightarrow> datetime \<Rightarrow> GPSPosition" where
  "example_gps i d t = new_gps_position i (example_position 1 (Some d) t)"

text \<open>The example store with the given activity and position rows (instants in minutes).\<close>

definition example_store :: "DriverActivity list \<Rightarrow> GPSPosition list \<Rightarrow> db" where
  "example_store rows pings =
     example_db\<lparr>gps_positions := pings, driver_activities := rows,
                gps_positions_id_seq := 100, driver_activities_id_seq := 100\<rparr>"

section \<open>Telematics service: rows, lookups and the vehicle snapshot\<close>

lemma find_write_row_eq:
  "P x \<Longrightarrow> find P (write_row P x ys) = (case find P ys of None \<Rightarrow> None | Some y \<Rightarrow> Some x)"
  by (induction ys) auto

lemma find_write_row_neq:
  "\<not> P x \<Longrightarrow> (\<And>y. Q y \<Longrightarrow> \<not> P y) \<Longrightarrow> find P (write_row Q x ys) = find P ys"
  by (induction ys) auto


lemma update_vehicle_position_id [simp]:
  "v_id (update_vehicle_position v p) = v_id v"
  by (simp add: update_vehicle_position_def Let_def split: option.splits)

lemma get_vehicle_flush:
  "get_vehicle (flush_vehicle s v) i =
     (if i = v_id v then (case get_vehicle s i of None \<Rightarrow> None | Some y \<Rightarrow> Some v) else get_vehicle s i)"
proof (cases "i = v_id v")
  case True
  then show ?thesis
    by (simp add: get_vehicle_def flush_vehicle_def find_write_row_eq)
next
  case False
  have "find (\<lambda>x. v_id x = i) (write_row (\<lambda>x. v_id x = v_id v) v (vehicles s))
          = find (\<lambda>x. v_id x = i) (vehicles s)"
    by (rule find_write_row_neq) (use False in auto)
  with False show ?thesis
    by (simp add: get_vehicle_def flush_vehicle_def)
qed

lemma find_Some_P: "find P xs = Some x \<Longrightarrow> P x"
  by (induction xs) (auto split: if_splits)

lemma get_vehicle_id: "get_vehicle s i = Some v \<Longrightarrow> v_id v = i"
  by (auto simp: get_vehicle_def dest: find_Some_P)

lemma not_after_refl [simp]: "not_after a a"
  by (simp add: not_after_def split: option.splits)




lemma get_vehicle_add_gps [simp]:
  "get_vehicle (fst (add_gps_position s p)) i = get_vehicle s i"
  by (simp add: add_gps_position_def get_vehicle_def Let_def)

lemma missing_driver_cong:
  "drivers s1 = drivers s2 \<Longrightarrow> missing_driver s1 p = missing_driver s2 p"
  by (simp add: missing_driver_def get_driver_def cong: option.case_cong)

lemma driver_known_cong:
  "drivers s1 = drivers s2 \<Longrightarrow> driver_known s1 p = driver_known s2 p"
  by (simp add: driver_known_def get_driver_def cong: option.case_cong)


lemma violates_foreign_key_new:
  "violates_foreign_key s (new_gps_position i p) \<longleftrightarrow>
     get_vehicle s (vehicle_id p) = None \<or> \<not> driver_known s p"
  by (simp add: violates_foreign_key_def new_gps_position_def driver_known_def
        split: option.splits)

text \<open>The four outcomes of \<^verbatim>\<open>ingest_position\<close>.\<close>

lemma ingest_position_outcome:
  "ingest_position s p b =
     (case get_vehicle s (vehicle_id p) of
        None \<Rightarrow> Inl (TelematicsServiceError (''Vehicle '' @ str_int (vehicle_id p) @ '' not found''))
      | Some v \<Rightarrow>
          (case missing_driver s p of
             Some d \<Rightarrow> Inl (TelematicsServiceError (''Driver '' @ str_int d @ '' not found''))
           | None \<Rightarrow>
               if \<not> driver_known s p then Inl IntegrityError
               else Inr (if b then flush_vehicle (fst (add_gps_position s p))
                                     (update_vehicle_position v p)
                         else fst (add_gps_position s p),
                         new_gps_position (gps_positions_id_seq s) p)))"
  by (simp add: ingest_position_def add_gps_position_def Let_def violates_foreign_key_new
        split: option.splits)

lemma ingest_position_Inr:
  assumes "ingest_position s p b = Inr (s', g)"
  shows "\<exists>v. get_vehicle s (vehicle_id p) = Some v \<and> driver_known s p \<and>
             g = new_gps_position (gps_positions_id_seq s) p \<and>
             s' = (if b then flush_vehicle (fst (add_gps_position s p)) (update_vehicle_position v p)
                   else fst (add_gps_position s p))"
  using assms unfolding ingest_position_outcome
  by (auto split: option.splits if_splits)


lemma ingest_position_error_kind:
  "ingest_position s p b = Inl e \<Longrightarrow> (\<exists>m. e = TelematicsServiceError m) \<or> e = IntegrityError"
  unfolding ingest_position_outcome by (auto split: option.splits if_splits)

lemma ingest_position_False:
  assumes "ingest_position s p False = Inr (s', g)"
  shows "s' = s\<lparr>gps_positions := gps_positions s @ [new_gps_position (gps_positions_id_seq s) p],
                 gps_positions_id_seq := gps_positions_id_seq s + 1\<rparr>"
  using ingest_position_Inr [OF assms] by (auto simp: add_gps_position_def Let_def)

lemma ingest_position_cong:
  assumes "vehicles s1 = vehicles s2" "drivers s1 = drivers s2"
  shows "isl (ingest_position s1 p b) = isl (ingest_position s2 p b)"
    and "isl (ingest_position s1 p b) \<Longrightarrow> ingest_position s2 p b = Inl (projl (ingest_position s1 p b))"
proof -
  have v: "get_vehicle s1 (vehicle_id p) = get_vehicle s2 (vehicle_id p)"
    using assms(1) by (simp add: get_vehicle_def)
  note m = missing_driver_cong [OF assms(2), of p]
  note k = driver_known_cong [OF assms(2), of p]
  show "isl (ingest_position s1 p b) = isl (ingest_position s2 p b)"
    unfolding ingest_position_outcome v m k by (simp split: option.splits)
  show "isl (ingest_position s1 p b) \<Longrightarrow> ingest_position s2 p b = Inl (projl (ingest_position s1 p b))"
    unfolding ingest_position_outcome v m k by (simp split: option.splits if_splits)
qed

lemma refused_at_flush_cong:
  assumes "vehicles s1 = vehicles s2" "drivers s1 = drivers s2"
  shows "refused_at_flush s1 p = refused_at_flush s2 p"
proof -
  have v: "get_vehicle s1 (vehicle_id p) = get_vehicle s2 (vehicle_id p)"
    using assms(1) by (simp add: get_vehicle_def)
  show ?thesis
    unfolding refused_at_flush_def ingest_position_outcome v
      missing_driver_cong [OF assms(2), of p] driver_known_cong [OF assms(2), of p]
    by (simp split: option.splits)
qed


section \<open>Telematics service: the two loops of a batch\<close>

text \<open>The first loop on a session that is no longer active.\<close>

lemma ingest_batch_positions_inactive:
  "ingest_batch_positions str_exc s0 s False stats vl ps =
     (s, False,
      stats\<lparr>failed := failed stats + int (length ps),
            errors := errors stats @
              replicate (length ps) (''Unexpected error: '' @ str_exc PendingRollbackError)\<rparr>,
      foldl track_latest vl ps)"
proof (induction ps arbitrary: stats vl)
  case Nil
  show ?case by simp
next
  case (Cons p ps)
  show ?case
    by (simp add: Cons.IH)
qed

text \<open>The first loop when no position of the batch is refused at a flush.\<close>

lemma ingest_batch_positions_clean:
  assumes "\<forall>p\<in>set ps. \<not> refused_at_flush s p"
  shows "ingest_batch_positions str_exc s0 s True stats vl ps =
     (s\<lparr>gps_positions := gps_positions s @
           inserted_rows (gps_positions_id_seq s)
             (filter (\<lambda>p. \<not> isl (ingest_position s p False)) ps),
         gps_positions_id_seq := gps_positions_id_seq s +
           int (length (filter (\<lambda>p. \<not> isl (ingest_position s p False)) ps))\<rparr>,
      True,
      stats\<lparr>successfully_processed := successfully_processed stats +
              int (length (filter (\<lambda>p. \<not> isl (ingest_position s p False)) ps)),
            failed := failed stats +
              int (length (filter (\<lambda>p. isl (ingest_position s p False)) ps)),
            errors := errors stats @
              map (\<lambda>p. message_of (projl (ingest_position s p False)))
                (filter (\<lambda>p. isl (ingest_position s p False)) ps)\<rparr>,
      foldl track_latest vl ps)"
  using assms
proof (induction ps arbitrary: s stats vl)
  case Nil
  show ?case by simp
next
  case (Cons p ps)
  have clean_tl: "\<forall>q\<in>set ps. \<not> refused_at_flush s q" using Cons.prems by simp
  have not_ref: "ingest_position s p False \<noteq> Inl IntegrityError"
    using Cons.prems by (simp add: refused_at_flush_def)
  show ?case
  proof (cases "ingest_position s p False")
    case (Inl e)
    with not_ref ingest_position_error_kind [OF Inl] obtain m where
      e: "e = TelematicsServiceError m" by auto
    have step: "ingest_batch_positions str_exc s0 s True stats vl (p # ps) =
                  ingest_batch_positions str_exc s0 s True
                    (stats\<lparr>failed := failed stats + 1, errors := errors stats @ [m]\<rparr>)
                    (track_latest vl p) ps"
      using Inl e by simp
    show ?thesis
      unfolding step Cons.IH [OF clean_tl] using Inl e by simp
  next
    case (Inr r)
    obtain s1 g where r: "r = (s1, g)" by (cases r)
    have s1: "s1 = s\<lparr>gps_positions := gps_positions s @ [new_gps_position (gps_positions_id_seq s) p],
                 gps_positions_id_seq := gps_positions_id_seq s + 1\<rparr>"
      using ingest_position_False Inr r by blast
    have same: "vehicles s1 = vehicles s" "drivers s1 = drivers s" using s1 by simp_all
    have cong: "\<And>q. isl (ingest_position s1 q False) = isl (ingest_position s q False)"
      using ingest_position_cong(1) [OF same] by simp
    have proj: "\<And>q. isl (ingest_position s q False) \<Longrightarrow>
                  projl (ingest_position s1 q False) = projl (ingest_position s q False)"
      using ingest_position_cong(2) [OF same [symmetric]] by simp
    have clean1: "\<forall>q\<in>set ps. \<not> refused_at_flush s1 q"
      using clean_tl refused_at_flush_cong [OF same] by simp
    have step: "ingest_batch_positions str_exc s0 s True stats vl (p # ps) =
                  ingest_batch_positions str_exc s0 s1 True
                    (stats\<lparr>successfully_processed := successfully_processed stats + 1\<rparr>)
                    (track_latest vl p) ps"
      using Inr r by simp
    have map_eq: "map (\<lambda>p. message_of (projl (ingest_position s1 p False)))
                            (filter (\<lambda>p. isl (ingest_position s p False)) ps)
        = map (\<lambda>p. message_of (projl (ingest_position s p False)))
                            (filter (\<lambda>p. isl (ingest_position s p False)) ps)"
      by (rule map_cong) (auto simp: proj)
    have p_ok: "\<not> isl (ingest_position s p False)" using Inr by simp
    show ?thesis
      unfolding step Cons.IH [OF clean1] cong map_eq using p_ok by (simp add: s1)
  qed
qed


text \<open>Whatever happens, every position is counted once.\<close>

lemma ingest_batch_positions_counts:
  assumes "ingest_batch_positions str_exc s0 s active stats vl ps = (s', active', stats', vl')"
  shows "successfully_processed stats' + failed stats' =
           successfully_processed stats + failed stats + int (length ps) \<and>
         total_received stats' = total_received stats \<and>
         vl' = foldl track_latest vl ps"
  using assms
proof (induction ps arbitrary: s active stats vl)
  case Nil
  then show ?case by simp
next
  case (Cons p ps)
  show ?case
  proof (cases active)
    case False
    with Cons.prems show ?thesis
      by (simp add: ingest_batch_positions_inactive) auto
  next
    case True
    show ?thesis
    proof (cases "ingest_position s p False")
      case (Inr r)
      obtain s1 g where r: "r = (s1, g)" by (cases r)
      from Cons.prems True Inr r have
        "ingest_batch_positions str_exc s0 s1 True
           (stats\<lparr>successfully_processed := successfully_processed stats + 1\<rparr>)
           (track_latest vl p) ps = (s', active', stats', vl')"
        by simp
      from Cons.IH [OF this] show ?thesis by simp
    next
      case (Inl e)
      show ?thesis
      proof (cases "\<exists>m. e = TelematicsServiceError m")
        case True2: True
        then obtain m where e: "e = TelematicsServiceError m" by blast
        from Cons.prems True Inl e have
          "ingest_batch_positions str_exc s0 s True
             (stats\<lparr>failed := failed stats + 1, errors := errors stats @ [m]\<rparr>)
             (track_latest vl p) ps = (s', active', stats', vl')"
          by simp
        from Cons.IH [OF this] show ?thesis by simp
      next
        case False
        with Cons.prems True Inl have
          "ingest_batch_positions str_exc s0
             (s0\<lparr>gps_positions_id_seq := gps_positions_id_seq s + 1\<rparr>) False
             (stats\<lparr>failed := failed stats + 1,
                    errors := errors stats @ [''Unexpected error: '' @ str_exc e]\<rparr>)
             (track_latest vl p) ps = (s', active', stats', vl')"
          by (cases e) simp_all
        from Cons.IH [OF this] show ?thesis by simp
      qed
    qed
  qed
qed


lemma update_latest_vehicles_counts:
  "successfully_processed (snd (update_latest_vehicles str_exc active s stats vl)) =
     successfully_processed stats \<and>
   failed (snd (update_latest_vehicles str_exc active s stats vl)) = failed stats \<and>
   total_received (snd (update_latest_vehicles str_exc active s stats vl)) = total_received stats"
  by (induction vl arbitrary: s stats) (auto split: option.splits)

lemma update_latest_vehicles_stats:
  "snd (update_latest_vehicles str_exc True s stats vl) = stats"
  by (induction vl arbitrary: s) (auto split: option.splits)

lemma update_latest_vehicles_frame:
  "gps_positions (fst (update_latest_vehicles str_exc True s stats vl)) = gps_positions s \<and>
   drivers (fst (update_latest_vehicles str_exc True s stats vl)) = drivers s \<and>
   driver_activities (fst (update_latest_vehicles str_exc True s stats vl)) = driver_activities s \<and>
   gps_positions_id_seq (fst (update_latest_vehicles str_exc True s stats vl)) =
     gps_positions_id_seq s \<and>
   driver_activities_id_seq (fst (update_latest_vehicles str_exc True s stats vl)) =
     driver_activities_id_seq s"
  by (induction vl arbitrary: s) (auto simp: flush_vehicle_def split: option.splits)

lemma get_vehicle_update_latest:
  assumes "distinct (map fst vl)"
  shows "get_vehicle (fst (update_latest_vehicles str_exc True s stats vl)) i =
           (case map_of vl i of None \<Rightarrow> get_vehicle s i
            | Some p \<Rightarrow> map_option (\<lambda>v. update_vehicle_position v p) (get_vehicle s i))"
  using assms
proof (induction vl arbitrary: s)
  case Nil
  then show ?case by simp
next
  case (Cons jp rest)
  obtain j p where jp: "jp = (j, p)" by (cases jp)
  from Cons.prems jp have d: "distinct (map fst rest)" and nj: "map_of rest j = None"
    by (auto simp: map_of_eq_None_iff)
  show ?case
  proof (cases "get_vehicle s j")
    case None
    with Cons.IH [OF d, of s] jp nj show ?thesis
      by (auto split: option.splits)
  next
    case (Some v)
    have vj: "v_id v = j" using Some by (rule get_vehicle_id)
    let ?s1 = "flush_vehicle s (update_vehicle_position v p)"
    have g: "get_vehicle ?s1 i = (if i = j then Some (update_vehicle_position v p) else get_vehicle s i)"
      using Some vj by (simp add: get_vehicle_flush)
    from Cons.IH [OF d, of ?s1] jp nj Some g show ?thesis
      by (auto split: option.splits)
  qed
qed

lemma distinct_track_latest:
  "distinct (map fst vl) \<Longrightarrow> distinct (map fst (track_latest vl p))"
  by (simp add: track_latest_def distinct_update split: option.splits)

lemma distinct_foldl_track_latest:
  "distinct (map fst vl) \<Longrightarrow> distinct (map fst (foldl track_latest vl ps))"
  by (induction ps arbitrary: vl) (simp_all add: distinct_track_latest)

lemma map_of_track_latest:
  "map_of (track_latest vl p) k =
     (if k = vehicle_id p
      then (case map_of vl k of None \<Rightarrow> Some p
            | Some c \<Rightarrow> if timestamp p > timestamp c then Some p else Some c)
      else map_of vl k)"
  by (simp add: track_latest_def update_conv' split: option.splits)

lemma latest_kept:
  assumes "map_of vl k = Some p"
    and "\<forall>q\<in>set ps. vehicle_id q = k \<longrightarrow> timestamp q \<le> timestamp p"
  shows "map_of (foldl track_latest vl ps) k = Some p"
  using assms
proof (induction ps arbitrary: vl)
  case Nil
  then show ?case by simp
next
  case (Cons q ps)
  have "map_of (track_latest vl q) k = Some p"
    using Cons.prems by (auto simp: map_of_track_latest)
  with Cons show ?case by simp
qed

lemma latest_selected:
  assumes "p \<in> set ps" "vehicle_id p = k"
    and "case map_of vl k of None \<Rightarrow> True | Some c \<Rightarrow> timestamp c < timestamp p"
    and "\<forall>q\<in>set ps. vehicle_id q = k \<longrightarrow> q \<noteq> p \<longrightarrow> timestamp q < timestamp p"
  shows "map_of (foldl track_latest vl ps) k = Some p"
  using assms
proof (induction ps arbitrary: vl)
  case Nil
  then show ?case by simp
next
  case (Cons q ps)
  show ?case
  proof (cases "q = p")
    case True
    have 1: "map_of (track_latest vl p) k = Some p"
      using Cons.prems(2,3) by (auto simp: map_of_track_latest split: option.splits)
    have 2: "\<forall>q\<in>set ps. vehicle_id q = k \<longrightarrow> timestamp q \<le> timestamp p"
      using Cons.prems(4) by force
    from latest_kept [OF 1 2] True show ?thesis by simp
  next
    case False
    then have in_ps: "p \<in> set ps" using Cons.prems(1) by simp
    have 3: "case map_of (track_latest vl q) k of None \<Rightarrow> True | Some c \<Rightarrow> timestamp c < timestamp p"
      using Cons.prems(3,4) False
      by (auto simp: map_of_track_latest split: option.splits)
    have 4: "\<forall>q\<in>set ps. vehicle_id q = k \<longrightarrow> q \<noteq> p \<longrightarrow> timestamp q < timestamp p"
      using Cons.prems(4) by simp
    from Cons.IH [OF in_ps Cons.prems(2) 3 4] show ?thesis by simp
  qed
qed


text \<open>\<^verbatim>\<open>ingest_batch\<close> as a whole.\<close>

lemma ingest_batch_counts:
  assumes "ingest_batch str_exc s positions = (s', stats)"
  shows "total_received stats = int (length positions) \<and>
         successfully_processed stats + failed stats = total_received stats"
proof -
  let ?st0 = "\<lparr>total_received = int (length positions), successfully_processed = 0,
               failed = 0, errors = []\<rparr>"
  obtain s1 a st1 vl where
    loop: "ingest_batch_positions str_exc s s True ?st0 [] positions = (s1, a, st1, vl)"
    by (cases "ingest_batch_positions str_exc s s True ?st0 [] positions") auto
  have stats: "stats = snd (update_latest_vehicles str_exc a s1 st1 vl)"
    using assms loop by (simp add: ingest_batch_def)
  from ingest_batch_positions_counts [OF loop] update_latest_vehicles_counts [of str_exc a s1 st1 vl]
  show ?thesis unfolding stats by simp
qed

lemma ingest_batch_clean:
  assumes clean: "\<forall>p\<in>set positions. \<not> refused_at_flush s p"
    and batch: "ingest_batch str_exc s positions = (s', stats)"
  shows "stats = \<lparr>total_received = int (length positions),
                  successfully_processed =
                    int (length (filter (\<lambda>p. \<not> isl (ingest_position s p False)) positions)),
                  failed = int (length (filter (\<lambda>p. isl (ingest_position s p False)) positions)),
                  errors = map (\<lambda>p. message_of (projl (ingest_position s p False)))
                             (filter (\<lambda>p. isl (ingest_position s p False)) positions)\<rparr>"
    and "gps_positions s' = gps_positions s @
           inserted_rows (gps_positions_id_seq s)
             (filter (\<lambda>p. \<not> isl (ingest_position s p False)) positions)"
    and "\<And>i. get_vehicle s' i =
           (case map_of (foldl track_latest [] positions) i of
              None \<Rightarrow> get_vehicle s i
            | Some p \<Rightarrow> map_option (\<lambda>v. update_vehicle_position v p) (get_vehicle s i))"
    and "drivers s' = drivers s" and "driver_activities s' = driver_activities s"
proof -
  let ?st0 = "\<lparr>total_received = int (length positions), successfully_processed = 0,
               failed = 0, errors = []\<rparr>"
  let ?ok = "\<lambda>p. \<not> isl (ingest_position s p False)"
  let ?bad = "\<lambda>p. isl (ingest_position s p False)"
  let ?s1 = "s\<lparr>gps_positions := gps_positions s @
                 inserted_rows (gps_positions_id_seq s) (filter ?ok positions),
               gps_positions_id_seq := gps_positions_id_seq s +
                 int (length (filter ?ok positions))\<rparr>"
  let ?st1 = "?st0\<lparr>successfully_processed := successfully_processed ?st0 +
                        int (length (filter ?ok positions)),
                     failed := failed ?st0 + int (length (filter ?bad positions)),
                     errors := errors ?st0 @
                        map (\<lambda>p. message_of (projl (ingest_position s p False)))
                          (filter ?bad positions)\<rparr>"
  let ?vl = "foldl track_latest [] positions"
  note loop = ingest_batch_positions_clean [OF clean, of str_exc s ?st0 "[]"]
  have res: "(s', stats) = update_latest_vehicles str_exc True ?s1 ?st1 ?vl"
    using batch unfolding ingest_batch_def Let_def loop by simp
  then have s': "s' = fst (update_latest_vehicles str_exc True ?s1 ?st1 ?vl)"
    and st: "stats = snd (update_latest_vehicles str_exc True ?s1 ?st1 ?vl)"
    by (metis fst_conv, metis snd_conv)
  show "stats = \<lparr>total_received = int (length positions),
                  successfully_processed = int (length (filter ?ok positions)),
                  failed = int (length (filter ?bad positions)),
                  errors = map (\<lambda>p. message_of (projl (ingest_position s p False)))
                             (filter ?bad positions)\<rparr>"
    unfolding st update_latest_vehicles_stats by simp
  note fr = update_latest_vehicles_frame [of str_exc ?s1 ?st1 ?vl]
  show "gps_positions s' = gps_positions s @
           inserted_rows (gps_positions_id_seq s) (filter ?ok positions)"
    unfolding s' using fr by simp
  show "drivers s' = drivers s" unfolding s' using fr by simp
  show "driver_activities s' = driver_activities s" unfolding s' using fr by simp
  have d: "distinct (map fst ?vl)" by (rule distinct_foldl_track_latest) simp
  have g: "\<And>i. get_vehicle ?s1 i = get_vehicle s i" by (simp add: get_vehicle_def)
  show "\<And>i. get_vehicle s' i =
           (case map_of ?vl i of
              None \<Rightarrow> get_vehicle s i
            | Some p \<Rightarrow> map_option (\<lambda>v. update_vehicle_position v p) (get_vehicle s i))"
    unfolding s' using get_vehicle_update_latest [OF d, of str_exc ?s1 ?st1]
    by (simp add: g cong: option.case_cong)
qed


section \<open>Telematics service: \<open>last_seen\<close> along the calls\<close>

lemma last_seen_of_seq [simp]:
  "last_seen_of (s\<lparr>gps_positions_id_seq := n\<rparr>) i = last_seen_of s i"
  by (simp add: last_seen_of_def get_vehicle_def)










text \<open>The definitions that evaluate the example store.\<close>

lemmas ex_defs = example_db_def example_vehicle_def example_position_def get_vehicle_def get_driver_def
  missing_driver_def driver_known_def last_seen_of_def not_after_def

section \<open>C1: \<open>last_seen\<close> never moves backwards\<close>



section \<open>C5: a batch and the failure of one position\<close>

text \<open>
  When no position of the batch is refused at a flush, the positions are handled one by one:
  the positions \<^verbatim>\<open>ingest_position\<close> accepts on the store as it was before the batch are
  counted in \<open>successfully_processed\<close> and appended to \<open>gps_positions\<close>, in order; the ones it
  rejects are counted in \<open>failed\<close> and leave their message in \<open>errors\<close>. In a batch of three
  whose second position names a vehicle that does not exist and whose other two are
  acceptable, two are processed, one has failed, and the first and third are stored.
\<close>

lemma ingest_batch_isolation_without_flush_failure:
  assumes clean: "\<forall>p\<in>set positions. \<not> refused_at_flush s p"
    and batch: "ingest_batch str_exc s positions = (s', stats)"
  shows "total_received stats = int (length positions) \<and>
         successfully_processed stats =
           int (length (filter (\<lambda>p. \<not> isl (ingest_position s p False)) positions)) \<and>
         failed stats = int (length (filter (\<lambda>p. isl (ingest_position s p False)) positions)) \<and>
         successfully_processed stats + failed stats = total_received stats \<and>
         errors stats = map (\<lambda>p. message_of (projl (ingest_position s p False)))
                          (filter (\<lambda>p. isl (ingest_position s p False)) positions) \<and>
         gps_positions s' = gps_positions s @
           inserted_rows (gps_positions_id_seq s)
             (filter (\<lambda>p. \<not> isl (ingest_position s p False)) positions) \<and>
         (\<forall>p1 p2 p3. positions = [p1, p2, p3] \<and> \<not> isl (ingest_position s p1 False) \<and>
             get_vehicle s (vehicle_id p2) = None \<and> \<not> isl (ingest_position s p3 False) \<longrightarrow>
             successfully_processed stats = 2 \<and> failed stats = 1 \<and>
             errors stats = [''Vehicle '' @ str_int (vehicle_id p2) @ '' not found''] \<and>
             gps_positions s' = gps_positions s @
               [new_gps_position (gps_positions_id_seq s) p1,
                new_gps_position (gps_positions_id_seq s + 1) p3])"
proof -
  let ?ok = "\<lambda>p. \<not> isl (ingest_position s p False)"
  let ?bad = "\<lambda>p. isl (ingest_position s p False)"
  note r = ingest_batch_clean [OF clean batch]
  have tr: "total_received stats = int (length positions)"
    and sp: "successfully_processed stats = int (length (filter ?ok positions))"
    and fl: "failed stats = int (length (filter ?bad positions))"
    and er: "errors stats = map (\<lambda>p. message_of (projl (ingest_position s p False)))
                             (filter ?bad positions)"
    by (subst r(1), simp)+
  have rows: "gps_positions s' = gps_positions s @
           inserted_rows (gps_positions_id_seq s) (filter ?ok positions)"
    by (rule r(2))
  have "length (filter ?bad positions) + length (filter ?ok positions) = length positions"
    by (rule sum_length_filter_compl)
  then have total: "successfully_processed stats + failed stats = total_received stats"
    unfolding tr sp fl by linarith
  have three: "\<forall>p1 p2 p3. positions = [p1, p2, p3] \<and> \<not> isl (ingest_position s p1 False) \<and>
             get_vehicle s (vehicle_id p2) = None \<and> \<not> isl (ingest_position s p3 False) \<longrightarrow>
             successfully_processed stats = 2 \<and> failed stats = 1 \<and>
             errors stats = [''Vehicle '' @ str_int (vehicle_id p2) @ '' not found''] \<and>
             gps_positions s' = gps_positions s @
               [new_gps_position (gps_positions_id_seq s) p1,
                new_gps_position (gps_positions_id_seq s + 1) p3]"
  proof (intro allI impI)
    fix p1 p2 p3
    assume h: "positions = [p1, p2, p3] \<and> \<not> isl (ingest_position s p1 False) \<and>
             get_vehicle s (vehicle_id p2) = None \<and> \<not> isl (ingest_position s p3 False)"
    have e2: "ingest_position s p2 False =
                Inl (TelematicsServiceError (''Vehicle '' @ str_int (vehicle_id p2) @ '' not found''))"
      using h by (simp add: ingest_position_def)
    have f1: "filter ?ok positions = [p1, p3]" and f2: "filter ?bad positions = [p2]"
      using h e2 by simp_all
    show "successfully_processed stats = 2 \<and> failed stats = 1 \<and>
             errors stats = [''Vehicle '' @ str_int (vehicle_id p2) @ '' not found''] \<and>
             gps_positions s' = gps_positions s @
               [new_gps_position (gps_positions_id_seq s) p1,
                new_gps_position (gps_positions_id_seq s + 1) p3]"
      unfolding sp fl er rows f1 f2 using e2 by simp
  qed
  from tr sp fl total er rows three show ?thesis by blast
qed

text \<open>
  Claim C5, at a batch it fails on. Every batch counts each position once
  (\<open>ingest_batch_counts\<close>), and a batch of which no position is refused at a flush handles
  its positions one by one, as the claim says. In the batch below the first and the third
  position are acceptable on their own, and the second names the driver \<open>0\<close>, which no
  driver has. \<^verbatim>\<open>if position.driver_id:\<close> is false for \<open>0\<close>, so the driver is not looked up
  and the flush inside \<^verbatim>\<open>ingest_position\<close> violates the foreign key. \<^verbatim>\<open>except Exception\<close>
  catches the \<^verbatim>\<open>IntegrityError\<close>, but the transaction has been rolled back: the row of the
  first position, which stays counted as processed, is gone; the third position fails with
  \<^verbatim>\<open>PendingRollbackError\<close>; the update of either vehicle fails with it too. One position is
  counted as processed, two as failed, no position is stored and no vehicle is updated.
\<close>

theorem ingest_batch_flush_failure_not_isolated:
  "ingest_position example_db (example_position 1 None 100) False =
     Inr (example_db\<lparr>gps_positions := [new_gps_position 1 (example_position 1 None 100)],
                     gps_positions_id_seq := 2\<rparr>,
          new_gps_position 1 (example_position 1 None 100)) \<and>
   driver_id (example_position 1 (Some 0) 200) = Some 0 \<and>
   get_driver example_db 0 = None \<and>
   ingest_position example_db (example_position 1 (Some 0) 200) False = Inl IntegrityError \<and>
   ingest_position example_db (example_position 2 None 600) False =
     Inr (example_db\<lparr>gps_positions := [new_gps_position 1 (example_position 2 None 600)],
                     gps_positions_id_seq := 2\<rparr>,
          new_gps_position 1 (example_position 2 None 600)) \<and>
   ingest_batch str_exc example_db
     [example_position 1 None 100, example_position 1 (Some 0) 200, example_position 2 None 600] =
     (example_db\<lparr>gps_positions_id_seq := 3\<rparr>,
      \<lparr>total_received = 3, successfully_processed = 1, failed = 2,
        errors = [''Unexpected error: '' @ str_exc IntegrityError,
                  ''Unexpected error: '' @ str_exc PendingRollbackError,
                  ''Failed to update vehicle 1: '' @ str_exc PendingRollbackError,
                  ''Failed to update vehicle 2: '' @ str_exc PendingRollbackError]\<rparr>)"
proof -
  have 1: "ingest_position example_db (example_position 1 None 100) False =
     Inr (example_db\<lparr>gps_positions := [new_gps_position 1 (example_position 1 None 100)],
                     gps_positions_id_seq := 2\<rparr>,
          new_gps_position 1 (example_position 1 None 100))"
    by (simp add: ingest_position_def add_gps_position_def violates_foreign_key_def
          new_gps_position_def Let_def ex_defs)
  have 3: "ingest_position example_db (example_position 2 None 600) False =
     Inr (example_db\<lparr>gps_positions := [new_gps_position 1 (example_position 2 None 600)],
                     gps_positions_id_seq := 2\<rparr>,
          new_gps_position 1 (example_position 2 None 600))"
    by (simp add: ingest_position_def add_gps_position_def violates_foreign_key_def
          new_gps_position_def Let_def ex_defs)
  have 2: "ingest_position example_db (example_position 1 (Some 0) 200) False = Inl IntegrityError"
    by (simp add: ingest_position_def add_gps_position_def violates_foreign_key_def
          new_gps_position_def Let_def ex_defs)
  have r2: "ingest_position
              (example_db\<lparr>gps_positions := [new_gps_position 1 (example_position 1 None 100)],
                          gps_positions_id_seq := 2\<rparr>)
              (example_position 1 (Some 0) 200) False = Inl IntegrityError"
    by (simp add: ingest_position_def add_gps_position_def violates_foreign_key_def
          new_gps_position_def Let_def ex_defs)
  have d: "driver_id (example_position 1 (Some 0) 200) = Some 0" "get_driver example_db 0 = None"
    by (simp_all add: ex_defs)
  have vl: "track_latest (track_latest (track_latest [] (example_position 1 None 100))
              (example_position 1 (Some 0) 200)) (example_position 2 None 600) =
            [(1, example_position 1 (Some 0) 200), (2, example_position 2 None 600)]"
    by (simp add: track_latest_def example_position_def)
  have b: "ingest_batch str_exc example_db
     [example_position 1 None 100, example_position 1 (Some 0) 200, example_position 2 None 600] =
     (example_db\<lparr>gps_positions_id_seq := 3\<rparr>,
      \<lparr>total_received = 3, successfully_processed = 1, failed = 2,
        errors = [''Unexpected error: '' @ str_exc IntegrityError,
                  ''Unexpected error: '' @ str_exc PendingRollbackError,
                  ''Failed to update vehicle 1: '' @ str_exc PendingRollbackError,
                  ''Failed to update vehicle 2: '' @ str_exc PendingRollbackError]\<rparr>)"
    unfolding ingest_batch_def
    by (simp add: 1 r2 vl Let_def str_int_def str_nat.simps)
  from 1 2 3 d b show ?thesis by blast
qed

section \<open>C9: the latest position of a vehicle is chosen among all received positions\<close>

lemma rows_without_driver:
  "\<forall>q\<in>set qs. driver_id q \<noteq> Some d \<Longrightarrow>
     \<forall>g\<in>set (inserted_rows i qs). gps_driver_id g \<noteq> Some d"
  by (induction qs arbitrary: i) (auto simp: new_gps_position_def)

text \<open>
  Claim C9. The first loop of \<^verbatim>\<open>ingest_batch\<close> records the latest position per vehicle from
  every received position, whether or not its ingestion fails. So, in a batch of which no
  position is refused at a flush, when a position of an existing vehicle names a driver that
  does not exist, has the strictly greatest timestamp of its vehicle in the batch and is
  newer than the stored \<open>last_seen\<close>, it is counted as failed and no row with its driver is
  stored, and yet its timestamp, coordinates, speed and heading are written to the vehicle's
  row.
\<close>

theorem ingest_batch_latest_includes_failed:
  assumes batch: "ingest_batch str_exc s positions = (s', stats)"
    and p: "p \<in> set positions"
    and v: "get_vehicle s (vehicle_id p) = Some v"
    and d: "driver_id p = Some d" "d \<noteq> 0" "get_driver s d = None"
    and latest: "\<forall>q\<in>set positions. vehicle_id q = vehicle_id p \<longrightarrow> q \<noteq> p \<longrightarrow>
                   timestamp q < timestamp p"
    and newer: "case last_seen v of None \<Rightarrow> True | Some ls \<Rightarrow> ls < timestamp p"
    and clean: "\<forall>q\<in>set positions. \<not> refused_at_flush s q"
  shows "snd (snd (snd (ingest_batch_positions str_exc s0 s1 active st vl positions))) =
           foldl track_latest vl positions \<and>
         ingest_position s p False =
           Inl (TelematicsServiceError (''Driver '' @ str_int d @ '' not found'')) \<and>
         1 \<le> failed stats \<and>
         (''Driver '' @ str_int d @ '' not found'') \<in> set (errors stats) \<and>
         (\<exists>rows. gps_positions s' = gps_positions s @ rows \<and>
                 (\<forall>g\<in>set rows. gps_driver_id g \<noteq> driver_id p)) \<and>
         get_vehicle s' (vehicle_id p) = Some (update_vehicle_position v p) \<and>
         last_seen (update_vehicle_position v p) = Some (timestamp p) \<and>
         current_position (update_vehicle_position v p) = Some (lon p, lat p) \<and>
         current_speed (update_vehicle_position v p) = speed p \<and>
         current_heading (update_vehicle_position v p) = heading p"
proof -
  let ?ok = "\<lambda>p. \<not> isl (ingest_position s p False)"
  let ?bad = "\<lambda>p. isl (ingest_position s p False)"
  let ?m = "''Driver '' @ str_int d @ '' not found''"
  have sel: "snd (snd (snd (ingest_batch_positions str_exc s0 s1 active st vl positions))) =
               foldl track_latest vl positions"
    using ingest_batch_positions_counts [of str_exc s0 s1 active st vl positions]
    by (cases "ingest_batch_positions str_exc s0 s1 active st vl positions") simp
  have md: "missing_driver s p = Some d" using d by (simp add: missing_driver_def)
  have e: "ingest_position s p False = Inl (TelematicsServiceError ?m)"
    using v md by (simp add: ingest_position_def)
  note r = ingest_batch_clean [OF clean batch]
  have fl: "failed stats = int (length (filter ?bad positions))"
    and er: "errors stats = map (\<lambda>p. message_of (projl (ingest_position s p False)))
                             (filter ?bad positions)"
    by (subst r(1), simp)+
  have pbad: "p \<in> set (filter ?bad positions)" using p e by simp
  then have "0 < length (filter ?bad positions)" by (rule length_pos_if_in_set)
  then have f1: "1 \<le> failed stats" unfolding fl by linarith
  have "message_of (projl (ingest_position s p False)) \<in> set (errors stats)"
    unfolding er using pbad by (simp only: set_map) (rule imageI)
  then have m_in: "?m \<in> set (errors stats)" using e by simp
  have "\<forall>q\<in>set (filter ?ok positions). driver_id q \<noteq> Some d"
  proof
    fix q assume q: "q \<in> set (filter ?ok positions)"
    show "driver_id q \<noteq> Some d"
    proof
      assume "driver_id q = Some d"
      then have "missing_driver s q = Some d" using d by (simp add: missing_driver_def)
      then have "isl (ingest_position s q False)"
        by (simp add: ingest_position_def split: option.splits)
      with q show False by simp
    qed
  qed
  from rows_without_driver [OF this]
  have rows_ok: "\<forall>g\<in>set (inserted_rows (gps_positions_id_seq s) (filter ?ok positions)).
                   gps_driver_id g \<noteq> driver_id p"
    by (simp add: d(1))
  have rows: "\<exists>rows. gps_positions s' = gps_positions s @ rows \<and>
                 (\<forall>g\<in>set rows. gps_driver_id g \<noteq> driver_id p)"
    using r(2) rows_ok by blast
  have "map_of (foldl track_latest [] positions) (vehicle_id p) = Some p"
    by (rule latest_selected [OF p refl _ latest]) simp
  then have g': "get_vehicle s' (vehicle_id p) = Some (update_vehicle_position v p)"
    using r(3) [of "vehicle_id p"] v by simp
  have applied: "last_seen (update_vehicle_position v p) = Some (timestamp p) \<and>
         current_position (update_vehicle_position v p) = Some (lon p, lat p) \<and>
         current_speed (update_vehicle_position v p) = speed p \<and>
         current_heading (update_vehicle_position v p) = heading p"
    using newer by (auto simp: update_vehicle_position_def Let_def split: option.splits)
  from sel e f1 m_in rows g' applied show ?thesis by blast
qed

theorem ingest_batch_latest_includes_failed_witness:
  "ingest_batch example_str_exc example_db
      [example_position 1 None 100, example_position 1 (Some 7) 200] =
     (example_db\<lparr>vehicles :=
         [\<lparr>v_id = 1, last_seen = Some 200, current_position = Some (2, 48),
           current_speed = Some 50, current_heading = Some 90, total_odometer = None\<rparr>,
          example_vehicle 2 (Some 500)],
        gps_positions := [new_gps_position 1 (example_position 1 None 100)],
        gps_positions_id_seq := 2\<rparr>,
      \<lparr>total_received = 2, successfully_processed = 1, failed = 1,
        errors = [''Driver 7 not found'']\<rparr>) \<and>
   ingest_position example_db (example_position 1 (Some 7) 200) False =
     Inl (TelematicsServiceError ''Driver 7 not found'')"
proof -
  let ?ps = "[example_position 1 None 100, example_position 1 (Some 7) 200]"
  let ?p = "example_position 1 (Some 7) 200"
  let ?r = "(example_db\<lparr>vehicles :=
         [\<lparr>v_id = 1, last_seen = Some 200, current_position = Some (2, 48),
           current_speed = Some 50, current_heading = Some 90, total_odometer = None\<rparr>,
          example_vehicle 2 (Some 500)],
        gps_positions := [new_gps_position 1 (example_position 1 None 100)],
        gps_positions_id_seq := 2\<rparr>,
      \<lparr>total_received = 2, successfully_processed = 1, failed = 1,
        errors = [''Driver 7 not found'']\<rparr>)"
  have batch: "ingest_batch example_str_exc example_db ?ps = ?r"
    by (simp add: ingest_batch_def ingest_position_def add_gps_position_def track_latest_def
          violates_foreign_key_def new_gps_position_def
          flush_vehicle_def update_vehicle_position_def Let_def ex_defs str_int_def str_nat.simps)
  have 1: "?p \<in> set ?ps" by simp
  have 2: "get_vehicle example_db (vehicle_id ?p) = Some (example_vehicle 1 None)"
    by (simp add: ex_defs)
  have 3: "driver_id ?p = Some 7" "(7::int) \<noteq> 0" "get_driver example_db 7 = None"
    by (simp_all add: ex_defs)
  have 4: "\<forall>q\<in>set ?ps. vehicle_id q = vehicle_id ?p \<longrightarrow> q \<noteq> ?p \<longrightarrow> timestamp q < timestamp ?p"
    by (simp add: ex_defs)
  have 5: "case last_seen (example_vehicle 1 None) of None \<Rightarrow> True | Some ls \<Rightarrow> ls < timestamp ?p"
    by (simp add: ex_defs)
  have 6: "\<forall>q\<in>set ?ps. \<not> refused_at_flush example_db q"
    by (simp add: refused_at_flush_def ingest_position_def add_gps_position_def
          violates_foreign_key_def new_gps_position_def Let_def ex_defs)
  from ingest_batch_latest_includes_failed [OF batch 1 2 3 4 5 6] batch
  show ?thesis by (simp add: str_int_def str_nat.simps)
qed

section \<open>C8: references that are not found\<close>

text \<open>
  A position whose vehicle is not found, or whose driver is given and not found, is never
  accepted: \<^verbatim>\<open>ingest_position\<close> raises, and an error carries no store.
\<close>

lemma ingest_position_not_accepted:
  assumes "get_vehicle s (vehicle_id p) = None \<or> \<not> driver_known s p"
  shows "isl (ingest_position s p b)"
  using assms ingest_position_Inr [of s p b]
  by (cases "ingest_position s p b") auto

text \<open>
  Claim C8, at the input it fails on. The driver id \<open>0\<close> is given and no driver has it, but
  \<^verbatim>\<open>if position.driver_id:\<close> is false for \<open>0\<close>: the driver is not looked up and no
  \<^verbatim>\<open>TelematicsServiceError\<close> is raised. The row is added and the flush violates the foreign
  key, so the call raises \<^verbatim>\<open>IntegrityError\<close>, which is not the not-found error. No row
  is stored and no vehicle is updated; only a key of the sequence is used up. A driver id other than \<open>0\<close> that no driver has, such as \<open>7\<close>, raises the not-found
  error.
\<close>

theorem ingest_position_driver_zero_integrity_error:
  "driver_id (example_position 1 (Some 0) 100) = Some 0 \<and>
   get_driver example_db 0 = None \<and>
   missing_driver example_db (example_position 1 (Some 0) 100) = None \<and>
   ingest_position example_db (example_position 1 (Some 0) 100) True = Inl IntegrityError \<and>
   (\<forall>m. ingest_position example_db (example_position 1 (Some 0) 100) True \<noteq>
          Inl (TelematicsServiceError m)) \<and>
   run_call str_exc example_db (IngestOne (example_position 1 (Some 0) 100)) =
     example_db\<lparr>gps_positions_id_seq := 2\<rparr> \<and>
   ingest_position example_db (example_position 1 (Some 7) 100) True =
     Inl (TelematicsServiceError ''Driver 7 not found'')"
  by (simp add: ingest_position_def add_gps_position_def violates_foreign_key_def
        new_gps_position_def Let_def ex_defs str_int_def str_nat.simps)

section \<open>Activity service: the summary\<close>

lemma get_activity_summary_Inr:
  assumes "get_activity_summary fmt_1f s d start_date end_date = Inr summary"
  shows "total_driving_hours summary =
           real_of_int (sum_list (map duration_minutes
             (filter (\<lambda>a. activity_type a = DRIVING)
                (get_driver_activities s d (Some start_date) (Some end_date) None)))) / 60"
    and "violations summary =
           (if total_driving_hours summary > 10
            then [''Exceeded maximum daily driving limit: ''
                    @ fmt_1f (total_driving_hours summary) @ ''h'']
            else if total_driving_hours summary > 9
            then [''Extended daily driving: ''
                    @ fmt_1f (total_driving_hours summary) @ ''h (max 2x/week)'']
            else [])"
  using assms unfolding get_activity_summary_def Let_def
  by (cases "get_driver s d"; auto)+

lemma violation_prefixes:
  "starts_with ''Exceeded maximum daily driving limit: ''
     (''Exceeded maximum daily driving limit: '' @ m)"
  "starts_with ''Extended daily driving: '' (''Extended daily driving: '' @ m)"
  "\<not> starts_with ''Extended daily driving: '' (''Exceeded maximum daily driving limit: '' @ m)"
  "\<not> starts_with ''Exceeded maximum daily driving limit: '' (''Extended daily driving: '' @ m)"
  by (simp_all add: starts_with_def)

section \<open>C4: the two driving-time thresholds\<close>

text \<open>
  Claim C4. In every summary \<^verbatim>\<open>get_activity_summary\<close> returns, the driving hours are the sum
  of the \<^verbatim>\<open>DRIVING\<close> minutes of the activities in the period, over 60; the violation list
  holds the message of the hard limit exactly when the driving hours exceed 10, and the
  message of the extended limit exactly when they exceed 9 and do not exceed 10; it is empty
  exactly when they are at most 9. So 9.0 hours give no violation and 10.0 hours give the
  extended-limit message, not the hard one.
\<close>

theorem summary_violation_thresholds:
  assumes "get_activity_summary fmt_1f s d start_date end_date = Inr summary"
  shows "total_driving_hours summary =
           real_of_int (sum_list (map duration_minutes
             (filter (\<lambda>a. activity_type a = DRIVING)
                (get_driver_activities s d (Some start_date) (Some end_date) None)))) / 60 \<and>
         ((\<exists>m. m \<in> set (violations summary) \<and>
               starts_with ''Exceeded maximum daily driving limit: '' m)
            \<longleftrightarrow> total_driving_hours summary > 10) \<and>
         ((\<exists>m. m \<in> set (violations summary) \<and> starts_with ''Extended daily driving: '' m)
            \<longleftrightarrow> 9 < total_driving_hours summary \<and> total_driving_hours summary \<le> 10) \<and>
         (total_driving_hours summary \<le> 9 \<longleftrightarrow> violations summary = []) \<and>
         violations summary =
           (if total_driving_hours summary > 10
            then [''Exceeded maximum daily driving limit: ''
                    @ fmt_1f (total_driving_hours summary) @ ''h'']
            else if total_driving_hours summary > 9
            then [''Extended daily driving: ''
                    @ fmt_1f (total_driving_hours summary) @ ''h (max 2x/week)'']
            else [])"
proof -
  define h where "h = total_driving_hours summary"
  have hours: "h = real_of_int (sum_list (map duration_minutes
             (filter (\<lambda>a. activity_type a = DRIVING)
                (get_driver_activities s d (Some start_date) (Some end_date) None)))) / 60"
    unfolding h_def by (rule get_activity_summary_Inr(1) [OF assms])
  have v: "violations summary =
           (if h > 10 then [''Exceeded maximum daily driving limit: '' @ fmt_1f h @ ''h'']
            else if h > 9 then [''Extended daily driving: '' @ fmt_1f h @ ''h (max 2x/week)'']
            else [])"
    unfolding h_def by (rule get_activity_summary_Inr(2) [OF assms])
  have hard: "(\<exists>m. m \<in> set (violations summary) \<and>
               starts_with ''Exceeded maximum daily driving limit: '' m) \<longleftrightarrow> h > 10"
    unfolding v by (auto simp del: append_Cons simp add: violation_prefixes)
  have soft: "(\<exists>m. m \<in> set (violations summary) \<and> starts_with ''Extended daily driving: '' m)
            \<longleftrightarrow> 9 < h \<and> h \<le> 10"
    unfolding v by (auto simp del: append_Cons simp add: violation_prefixes)
  have none: "h \<le> 9 \<longleftrightarrow> violations summary = []"
    unfolding v by auto
  from hours hard soft none v show ?thesis unfolding h_def by blast
qed

theorem summary_violation_thresholds_witness:
  "get_activity_summary (\<lambda>h. ''9.1'')
     (example_store [example_activity 1 1 DRIVING 0 546, example_activity 2 1 REST 546 600] [])
     1 0 1000 =
     Inr \<lparr>s_driver_id = 1, driver_name = ''Ann'', period_start = 0, period_end = 1000,
          total_driving_hours = 91 / 10, total_rest_hours = 9 / 10, total_work_hours = 0,
          total_distance_km = 0,
          violations = [''Extended daily driving: 9.1h (max 2x/week)'']\<rparr> \<and>
   starts_with ''Extended daily driving: '' ''Extended daily driving: 9.1h (max 2x/week)'' \<and>
   \<not> starts_with ''Exceeded maximum daily driving limit: ''
       ''Extended daily driving: 9.1h (max 2x/week)''"
proof -
  let ?s = "example_store [example_activity 1 1 DRIVING 0 546, example_activity 2 1 REST 546 600] []"
  let ?r = "\<lparr>s_driver_id = 1, driver_name = ''Ann'', period_start = 0, period_end = 1000,
          total_driving_hours = 91 / 10, total_rest_hours = 9 / 10, total_work_hours = 0,
          total_distance_km = 0,
          violations = [''Extended daily driving: 9.1h (max 2x/week)'']\<rparr>"
  have e: "get_activity_summary (\<lambda>h. ''9.1'') ?s 1 0 1000 = Inr ?r"
    by (simp add: get_activity_summary_def get_driver_activities_def example_store_def
          example_activity_def ex_defs Let_def)
  from summary_violation_thresholds [OF e] e show ?thesis
    by (simp add: starts_with_def)
qed

lemma set_get_driver_activities:
  "set (get_driver_activities s d (Some st) (Some en) None) =
     {a \<in> set (driver_activities s). a_driver_id a = d \<and> st \<le> start_time a \<and> end_time a \<le> en}"
  by (auto simp: get_driver_activities_def)

lemma set_fuse_gps_positions:
  "set (fuse_gps_positions s d st en) =
     {g \<in> set (gps_positions s). gps_driver_id g = Some d \<and> st \<le> gps_timestamp g \<and>
                                  gps_timestamp g \<le> en}"
  by (auto simp: fuse_gps_positions_def)

section \<open>C6: what a fusion request loads\<close>

text \<open>
  Claim C6, as the code has it. The activities \<^verbatim>\<open>fuse_gps_with_activities\<close> loads are exactly
  the driver's activities that lie within the window (\<open>start_time\<close> not before its start
  and \<open>end_time\<close> not after its end); the positions it queries are exactly the driver's
  positions whose timestamp lies in the window, both ends included; and its result is
  computed from these two lists, with no position looked at when no activity is loaded.
\<close>

theorem fuse_loads_contained_activities:
  "set (get_driver_activities s d (Some st) (Some en) None) =
     {a \<in> set (driver_activities s). a_driver_id a = d \<and> st \<le> start_time a \<and> end_time a \<le> en} \<and>
   set (fuse_gps_positions s d st en) =
     {g \<in> set (gps_positions s). gps_driver_id g = Some d \<and> st \<le> gps_timestamp g \<and>
                                  gps_timestamp g \<le> en} \<and>
   fuse_gps_with_activities s d st en =
     (if get_driver_activities s d (Some st) (Some en) None = [] then (s, 0)
      else (if 0 < snd (associate_all (fuse_gps_positions s d st en)
                          (get_driver_activities s d (Some st) (Some en) None) 0)
            then flush_activities s
                   (fst (associate_all (fuse_gps_positions s d st en)
                           (get_driver_activities s d (Some st) (Some en) None) 0))
            else s,
            snd (associate_all (fuse_gps_positions s d st en)
                   (get_driver_activities s d (Some st) (Some en) None) 0)))"
  by (simp add: set_get_driver_activities set_fuse_gps_positions fuse_gps_with_activities_def
        Let_def split: prod.splits)

theorem fuse_loads_contained_activities_witness:
  "get_driver_activities
     (example_store [example_activity 1 1 DRIVING 540 600, example_activity 2 1 BREAK 5 15]
        [example_gps 1 1 585, example_gps 2 1 5]) 1 (Some 10) (Some 1000) None =
     [example_activity 1 1 DRIVING 540 600] \<and>
   fuse_gps_positions
     (example_store [example_activity 1 1 DRIVING 540 600, example_activity 2 1 BREAK 5 15]
        [example_gps 1 1 585, example_gps 2 1 5]) 1 10 1000 = [example_gps 1 1 585] \<and>
   fuse_gps_with_activities
     (example_store [example_activity 1 1 DRIVING 540 600, example_activity 2 1 BREAK 5 15]
        [example_gps 1 1 585, example_gps 2 1 5]) 1 10 1000 =
     (example_store [(example_activity 1 1 DRIVING 540 600)\<lparr>raw_data := Some [(1, 585)]\<rparr>,
                     example_activity 2 1 BREAK 5 15]
        [example_gps 1 1 585, example_gps 2 1 5], 1)"
proof -
  let ?s = "example_store [example_activity 1 1 DRIVING 540 600, example_activity 2 1 BREAK 5 15]
        [example_gps 1 1 585, example_gps 2 1 5]"
  have a: "get_driver_activities ?s 1 (Some 10) (Some 1000) None =
             [example_activity 1 1 DRIVING 540 600]"
    by (simp add: get_driver_activities_def example_store_def example_activity_def)
  have g: "fuse_gps_positions ?s 1 10 1000 = [example_gps 1 1 585]"
    by (simp add: fuse_gps_positions_def example_store_def example_gps_def new_gps_position_def
          example_position_def)
  have l: "associate_all [example_gps 1 1 585] [example_activity 1 1 DRIVING 540 600] 0 =
             ([(example_activity 1 1 DRIVING 540 600)\<lparr>raw_data := Some [(1, 585)]\<rparr>], 1)"
    by (simp add: example_gps_def new_gps_position_def example_position_def example_activity_def)
  have f: "flush_activities ?s [(example_activity 1 1 DRIVING 540 600)\<lparr>raw_data := Some [(1, 585)]\<rparr>] =
      example_store [(example_activity 1 1 DRIVING 540 600)\<lparr>raw_data := Some [(1, 585)]\<rparr>,
                     example_activity 2 1 BREAK 5 15]
        [example_gps 1 1 585, example_gps 2 1 5]"
    by (simp add: flush_activities_def example_store_def example_activity_def)
  from fuse_loads_contained_activities [of ?s 1 10 1000]
  have "fuse_gps_with_activities ?s 1 10 1000 =
     (if get_driver_activities ?s 1 (Some 10) (Some 1000) None = [] then (?s, 0)
      else (if 0 < snd (associate_all (fuse_gps_positions ?s 1 10 1000)
                          (get_driver_activities ?s 1 (Some 10) (Some 1000) None) 0)
            then flush_activities ?s
                   (fst (associate_all (fuse_gps_positions ?s 1 10 1000)
                           (get_driver_activities ?s 1 (Some 10) (Some 1000) None) 0))
            else ?s,
            snd (associate_all (fuse_gps_positions ?s 1 10 1000)
                   (get_driver_activities ?s 1 (Some 10) (Some 1000) None) 0)))"
    by (rule conjunct2 [THEN conjunct2])
  then have "fuse_gps_with_activities ?s 1 10 1000 =
     (example_store [(example_activity 1 1 DRIVING 540 600)\<lparr>raw_data := Some [(1, 585)]\<rparr>,
                     example_activity 2 1 BREAK 5 15]
        [example_gps 1 1 585, example_gps 2 1 5], 1)"
    unfolding a g l by (simp add: f)
  with a g show ?thesis by blast
qed

text \<open>
  Claim C6 as stated fails: an activity from 5 to 15 of driver 1 intersects the window from
  10 to 20 and is not loaded, so a position at 12 is associated with nothing.
\<close>

theorem fuse_skips_intersecting_activity:
  "example_activity 1 1 DRIVING 5 15 \<in>
     set (driver_activities (example_store [example_activity 1 1 DRIVING 5 15] [example_gps 1 1 12])) \<and>
   a_driver_id (example_activity 1 1 DRIVING 5 15) = 1 \<and>
   start_time (example_activity 1 1 DRIVING 5 15) \<le> 20 \<and>
   10 \<le> end_time (example_activity 1 1 DRIVING 5 15) \<and>
   example_activity 1 1 DRIVING 5 15 \<notin>
     set (get_driver_activities
            (example_store [example_activity 1 1 DRIVING 5 15] [example_gps 1 1 12])
            1 (Some 10) (Some 20) None) \<and>
   fuse_gps_with_activities
     (example_store [example_activity 1 1 DRIVING 5 15] [example_gps 1 1 12]) 1 10 20 =
     (example_store [example_activity 1 1 DRIVING 5 15] [example_gps 1 1 12], 0)"
  by (simp add: example_store_def example_activity_def get_driver_activities_def
        fuse_gps_with_activities_def)



lemma overlapping_sym:
  "overlapping (a_driver_id a) (start_time a) (end_time a) b \<longleftrightarrow>
   overlapping (a_driver_id b) (start_time b) (end_time b) a"
  by (auto simp: overlapping_def)






section \<open>C2: \<open>create_activity\<close> refuses an overlapping interval\<close>



section \<open>C3: the bulk store skips what overlaps\<close>












section \<open>C7: a position goes to the first activity that contains it\<close>

lemma with_refs_frame [simp]:
  "a_id (with_refs a refs) = a_id a"
  "a_driver_id (with_refs a refs) = a_driver_id a"
  "start_time (with_refs a refs) = start_time a"
  "end_time (with_refs a refs) = end_time a"
  "covers g (with_refs a refs) = covers g a"
  by (simp_all add: with_refs_def covers_def)

lemma with_refs_Nil [simp]: "with_refs a [] = a"
  by (simp add: with_refs_def)

lemma with_refs_append: "with_refs (with_refs a r1) r2 = with_refs a (r1 @ r2)"
  by (simp add: with_refs_def annotations_def)

lemma annotations_with_refs: "annotations (with_refs a refs) = annotations a @ refs"
  by (simp add: with_refs_def annotations_def)

lemma first_match_in:
  "first_match g acts = Some i \<Longrightarrow> i \<in> a_id ` set acts"
  by (auto simp: first_match_def find_Some_iff)

lemma first_match_Cons:
  "first_match g (a # acts) = (if covers g a then Some (a_id a) else first_match g acts)"
  by (simp add: first_match_def)

lemma first_match_map:
  assumes "\<And>x. a_id (f x) = a_id x" "\<And>x. covers g (f x) = covers g x"
  shows "first_match g (map f acts) = first_match g acts"
proof (induction acts)
  case Nil
  show ?case by simp
next
  case (Cons a acts)
  then show ?case by (simp add: first_match_Cons assms)
qed

lemma associate_map:
  assumes "distinct (map a_id acts)"
  shows "associate g acts =
           (map (\<lambda>x. with_refs x (if first_match g acts = Some (a_id x)
                                    then [(gps_id g, gps_timestamp g)] else [])) acts,
            first_match g acts \<noteq> None)"
  using assms
proof (induction acts)
  case Nil
  then show ?case by (simp add: first_match_def)
next
  case (Cons a acts)
  show ?case
  proof (cases "covers g a")
    case True
    have rest: "map (\<lambda>x. with_refs x (if a_id a = a_id x
                                    then [(gps_id g, gps_timestamp g)] else [])) acts = acts"
      using Cons.prems by (intro map_idI) auto
    have head: "with_refs a [(gps_id g, gps_timestamp g)] =
                  a\<lparr>raw_data := Some ((case raw_data a of None \<Rightarrow> [] | Some d \<Rightarrow> d)
                                         @ [(gps_id g, gps_timestamp g)])\<rparr>"
      by (simp add: with_refs_def annotations_def)
    have "start_time a \<le> gps_timestamp g \<and> gps_timestamp g \<le> end_time a"
      using True by (simp add: covers_def)
    with True show ?thesis
      by (simp add: first_match_Cons rest head Let_def)
  next
    case False
    have d: "distinct (map a_id acts)" using Cons.prems by simp
    have "first_match g acts \<noteq> Some (a_id a)"
      using first_match_in [of g acts "a_id a"] Cons.prems by auto
    then have keep: "with_refs a (if first_match g acts = Some (a_id a)
                                    then [(gps_id g, gps_timestamp g)] else []) = a"
      by simp
    have "\<not> (start_time a \<le> gps_timestamp g \<and> gps_timestamp g \<le> end_time a)"
      using False by (simp add: covers_def)
    then have step: "associate g (a # acts) =
                       (let (rest', found) = associate g acts in (a # rest', found))"
      by (simp only: associate.simps if_False)
    show ?thesis
      unfolding step Cons.IH [OF d] using False by (simp add: first_match_Cons keep)
  qed
qed

lemma refs_of_Cons:
  "refs_of (g # gs) acts i =
     (if first_match g acts = Some i then [(gps_id g, gps_timestamp g)] else []) @ refs_of gs acts i"
  by (simp add: refs_of_def)

lemma associate_all_map:
  assumes "distinct (map a_id acts)"
  shows "associate_all gs acts n =
           (map (\<lambda>x. with_refs x (refs_of gs acts (a_id x))) acts,
            n + int (length (filter (\<lambda>g. first_match g acts \<noteq> None) gs)))"
  using assms
proof (induction gs arbitrary: acts n)
  case Nil
  then show ?case by (simp add: refs_of_def)
next
  case (Cons g gs)
  let ?one = "\<lambda>x. with_refs x (if first_match g acts = Some (a_id x)
                                    then [(gps_id g, gps_timestamp g)] else [])"
  let ?acts1 = "map ?one acts"
  have ids: "map a_id ?acts1 = map a_id acts" by simp
  then have d1: "distinct (map a_id ?acts1)" using Cons.prems by (simp only:)
  have fm: "first_match g' ?acts1 = first_match g' acts" for g'
    by (rule first_match_map) simp_all
  have ro: "refs_of gs ?acts1 i = refs_of gs acts i" for i
    by (simp only: refs_of_def fm)
  have step: "associate_all (g # gs) acts n =
                associate_all gs ?acts1 (if first_match g acts \<noteq> None then n + 1 else n)"
    by (simp add: associate_map [OF Cons.prems])
  have comp: "map (\<lambda>x. with_refs x (refs_of gs ?acts1 (a_id x))) ?acts1 =
              map (\<lambda>x. with_refs x (refs_of (g # gs) acts (a_id x))) acts"
    by (simp add: ro with_refs_append refs_of_Cons)
  show ?case
    unfolding step Cons.IH [OF d1] comp by (simp add: fm)
qed

lemma write_row_map:
  assumes "distinct (map k rows)"
  shows "write_row (\<lambda>x. k x = k a) a rows = map (\<lambda>x. if k x = k a then a else x) rows"
  using assms
proof (induction rows)
  case Nil
  then show ?case by simp
next
  case (Cons y rows)
  show ?case
  proof (cases "k y = k a")
    case True
    have "k y \<notin> k ` set rows" using Cons.prems by simp
    then have "\<forall>x\<in>set rows. k x \<noteq> k a" unfolding True by (metis image_eqI)
    then have "map (\<lambda>x. if k x = k a then a else x) rows = rows"
      by (intro map_idI) simp
    with True show ?thesis by simp
  next
    case False
    with Cons show ?thesis by simp
  qed
qed

lemma foldl_write_rows:
  assumes "distinct (map k rows)" "distinct (map k as)"
  shows "foldl (\<lambda>rows a. write_row (\<lambda>x. k x = k a) a rows) rows as =
           map (\<lambda>row. case find (\<lambda>a. k a = k row) as of None \<Rightarrow> row | Some a \<Rightarrow> a) rows"
  using assms
proof (induction as arbitrary: rows)
  case Nil
  then show ?case by simp
next
  case (Cons a as)
  let ?rows1 = "map (\<lambda>x. if k x = k a then a else x) rows"
  have keys: "map k ?rows1 = map k rows" by (induction rows) auto
  then have d1: "distinct (map k ?rows1)" using Cons.prems(1) by (simp only:)
  have d2: "distinct (map k as)" using Cons.prems(2) by simp
  have "k a \<notin> k ` set as" using Cons.prems(2) by simp
  then have "\<forall>x\<in>set as. k x \<noteq> k a" by (metis image_eqI)
  then have fresh: "find (\<lambda>b. k b = k a) as = None"
    by (simp add: find_None_iff)
  have "foldl (\<lambda>rows a. write_row (\<lambda>x. k x = k a) a rows) rows (a # as) =
          foldl (\<lambda>rows a. write_row (\<lambda>x. k x = k a) a rows) ?rows1 as"
    by (simp add: write_row_map [OF Cons.prems(1)])
  also have "\<dots> = map (\<lambda>row. case find (\<lambda>a. k a = k row) as of None \<Rightarrow> row | Some a \<Rightarrow> a) ?rows1"
    by (rule Cons.IH [OF d1 d2])
  also have "\<dots> = map (\<lambda>row. case find (\<lambda>b. k b = k row) (a # as) of None \<Rightarrow> row | Some b \<Rightarrow> b) rows"
    by (auto simp: fresh)
  finally show ?case .
qed

lemma find_key_map:
  assumes "\<And>x. k (f x) = k x"
  shows "find (\<lambda>a. k a = i) (map f as) = map_option f (find (\<lambda>a. k a = i) as)"
  by (induction as) (simp_all add: assms)

lemma find_key_distinct:
  assumes "distinct (map k rows)" "set as \<subseteq> set rows" "row \<in> set rows"
  shows "find (\<lambda>a. k a = k row) as = (if row \<in> set as then Some row else None)"
proof (cases "find (\<lambda>a. k a = k row) as")
  case None
  then have "row \<notin> set as" by (auto simp: find_None_iff)
  with None show ?thesis by simp
next
  case (Some a)
  then have "a \<in> set as" "k a = k row" by (auto simp: find_Some_iff)
  then have "a = row" using assms by (meson distinct_map inj_onD subsetD)
  with Some \<open>a \<in> set as\<close> show ?thesis by simp
qed

lemma flush_activities_map:
  assumes d: "distinct (map a_id (driver_activities s))"
    and da: "distinct (map a_id acts)"
    and sub: "set acts \<subseteq> set (driver_activities s)"
    and id: "\<And>x. a_id (f x) = a_id x"
    and out: "\<And>row. row \<in> set (driver_activities s) \<Longrightarrow> row \<notin> set acts \<Longrightarrow> f row = row"
  shows "flush_activities s (map f acts) =
           s\<lparr>driver_activities := map f (driver_activities s)\<rparr>"
proof -
  have d': "distinct (map a_id (map f acts))"
    using da by (simp add: id comp_def)
  have "map (\<lambda>row. case find (\<lambda>a. a_id a = a_id row) (map f acts) of
                     None \<Rightarrow> row | Some a \<Rightarrow> a) (driver_activities s) =
        map f (driver_activities s)"
  proof (rule map_cong [OF refl])
    fix row assume r: "row \<in> set (driver_activities s)"
    have "find (\<lambda>a. a_id a = a_id row) (map f acts) =
            map_option f (if row \<in> set acts then Some row else None)"
      using find_key_map [of a_id f "a_id row" acts] find_key_distinct [OF d sub r]
      by (simp add: id)
    then show "(case find (\<lambda>a. a_id a = a_id row) (map f acts) of
                  None \<Rightarrow> row | Some a \<Rightarrow> a) = f row"
      using out [OF r] by simp
  qed
  then show ?thesis
    unfolding flush_activities_def foldl_write_rows [OF d d'] by simp
qed

lemma get_driver_activities_rows:
  "set (get_driver_activities s d sd ed ty) \<subseteq> set (driver_activities s)"
  "distinct (map a_id (driver_activities s)) \<Longrightarrow>
     distinct (map a_id (get_driver_activities s d sd ed ty))"
proof -
  show "set (get_driver_activities s d sd ed ty) \<subseteq> set (driver_activities s)"
    by (auto simp: get_driver_activities_def)
  assume "distinct (map a_id (driver_activities s))"
  then have "distinct (driver_activities s)" "inj_on a_id (set (driver_activities s))"
    by (simp_all add: distinct_map)
  then show "distinct (map a_id (get_driver_activities s d sd ed ty))"
    unfolding get_driver_activities_def distinct_map
    by (auto intro: inj_on_subset)
qed

lemma refs_of_outside:
  assumes "distinct (map a_id rows)" "set acts \<subseteq> set rows" "row \<in> set rows" "row \<notin> set acts"
  shows "refs_of gs acts (a_id row) = []"
proof -
  have "first_match g acts \<noteq> Some (a_id row)" for g
  proof
    assume "first_match g acts = Some (a_id row)"
    then obtain a where "a \<in> set acts" "a_id a = a_id row"
      using first_match_in by fastforce
    then have "a = row" using assms(1,2,3) by (meson distinct_map inj_onD subsetD)
    with \<open>a \<in> set acts\<close> assms(4) show False by simp
  qed
  then show ?thesis by (simp add: refs_of_def)
qed

lemma count_one:
  assumes "distinct (map k rows)" "i \<in> k ` set rows"
  shows "sum_list (map (\<lambda>row. if i = k row then 1 else 0) rows) = (1::nat)"
  using assms
proof (induction rows)
  case Nil
  then show ?case by simp
next
  case (Cons y rows)
  show ?case
  proof (cases "i = k y")
    case True
    then have "\<forall>x\<in>set rows. i \<noteq> k x" using Cons.prems(1) by auto
    then have "map (\<lambda>row. if i = k row then 1 else 0) rows = map (\<lambda>row. 0::nat) rows"
      by (intro map_cong) auto
    with True show ?thesis by simp
  next
    case False
    with Cons show ?thesis by auto
  qed
qed

lemma refs_total:
  assumes "distinct (map a_id rows)" "set acts \<subseteq> set rows"
  shows "sum_list (map (\<lambda>row. length (refs_of gs acts (a_id row))) rows) =
           length (filter (\<lambda>g. first_match g acts \<noteq> None) gs)"
proof (induction gs)
  case Nil
  then show ?case by (simp add: refs_of_def)
next
  case (Cons g gs)
  have one: "sum_list (map (\<lambda>row. if first_match g acts = Some (a_id row) then 1 else 0) rows) =
               (if first_match g acts \<noteq> None then 1 else (0::nat))"
  proof (cases "first_match g acts")
    case None
    then show ?thesis by simp
  next
    case (Some i)
    then have "i \<in> a_id ` set rows" using first_match_in assms(2) by fastforce
    from count_one [OF assms(1) this] Some show ?thesis by simp
  qed
  have "sum_list (map (\<lambda>row. length (refs_of (g # gs) acts (a_id row))) rows) =
        sum_list (map (\<lambda>row. (if first_match g acts = Some (a_id row) then 1 else 0) +
                               length (refs_of gs acts (a_id row))) rows)"
    by (intro arg_cong [where f = sum_list] map_cong) (auto simp: refs_of_Cons)
  also have "\<dots> = sum_list (map (\<lambda>row. if first_match g acts = Some (a_id row) then 1 else 0) rows)
                   + sum_list (map (\<lambda>row. length (refs_of gs acts (a_id row))) rows)"
    by (rule sum_list_addf)
  finally show ?case using one Cons.IH by simp
qed

lemma fuse_result:
  assumes d: "distinct (map a_id (driver_activities s))"
  shows "fuse_gps_with_activities s dr st en =
           (s\<lparr>driver_activities :=
                map (\<lambda>row. with_refs row
                       (refs_of (fuse_gps_positions s dr st en)
                          (get_driver_activities s dr (Some st) (Some en) None) (a_id row)))
                  (driver_activities s)\<rparr>,
            int (length (filter (\<lambda>g. first_match g
                           (get_driver_activities s dr (Some st) (Some en) None) \<noteq> None)
                    (fuse_gps_positions s dr st en))))"
proof -
  let ?acts = "get_driver_activities s dr (Some st) (Some en) None"
  let ?gs = "fuse_gps_positions s dr st en"
  let ?f = "\<lambda>row. with_refs row (refs_of ?gs ?acts (a_id row))"
  let ?n = "int (length (filter (\<lambda>g. first_match g ?acts \<noteq> None) ?gs))"
  note sub = get_driver_activities_rows(1) [of s dr "Some st" "Some en" None]
  note da = get_driver_activities_rows(2) [OF d, of dr "Some st" "Some en" None]
  have out: "?f row = row" if "row \<in> set (driver_activities s)" "row \<notin> set ?acts" for row
    using refs_of_outside [OF d sub that] by simp
  have flush: "flush_activities s (map ?f ?acts) = s\<lparr>driver_activities := map ?f (driver_activities s)\<rparr>"
    by (rule flush_activities_map [OF d da sub _ out]) simp
  have loop: "associate_all ?gs ?acts 0 = (map ?f ?acts, ?n)"
    using associate_all_map [OF da, of ?gs 0] by simp
  show ?thesis
  proof (cases "?acts = []")
    case True
    have "first_match g [] = None" for g by (simp add: first_match_def)
    then have "refs_of ?gs [] i = []" for i by (simp add: refs_of_def)
    then have "map ?f (driver_activities s) = driver_activities s"
      unfolding True by (intro map_idI) simp
    moreover have "?n = 0" unfolding True by (simp add: first_match_def)
    ultimately show ?thesis
      using True by (simp add: fuse_gps_with_activities_def)
  next
    case False
    show ?thesis
    proof (cases "0 < ?n")
      case True
      with False show ?thesis
        unfolding fuse_gps_with_activities_def Let_def loop by (simp add: flush)
    next
      case False2: False
      then have none: "filter (\<lambda>g. first_match g ?acts \<noteq> None) ?gs = []" by simp
      then have "\<forall>g\<in>set ?gs. first_match g ?acts = None"
        by (simp add: filter_empty_conv)
      then have "refs_of ?gs ?acts i = []" for i
        by (auto simp: refs_of_def filter_empty_conv)
      then have "map ?f (driver_activities s) = driver_activities s"
        by (intro map_idI) simp
      with False False2 show ?thesis
        unfolding fuse_gps_with_activities_def Let_def loop by simp
    qed
  qed
qed

lemma first_match_meaning:
  "first_match g acts = Some i \<longleftrightarrow>
     (\<exists>k<length acts. a_id (acts ! k) = i \<and> covers g (acts ! k) \<and>
                       (\<forall>j<k. \<not> covers g (acts ! j)))"
  by (auto simp: first_match_def find_Some_iff)

text \<open>
  Claim C7. On a store whose activity rows have distinct primary keys, a fusion request
  changes nothing but \<open>raw_data\<close> of activity rows: every row keeps its bounds and all its
  other fields, and its references grow by those of the loaded positions whose first
  match, in scan order of the loaded activities, is this row; the first match of a position
  is the first loaded activity whose bounds contain its timestamp, both ends included. The
  number returned is the number of loaded positions that have a match, and it is the
  number of references added over all rows: one per matched position, none elsewhere.
\<close>

theorem fuse_attaches_to_first_match:
  assumes "distinct (map a_id (driver_activities s))"
    and "fuse_gps_with_activities s dr st en = (s', n)"
  shows "let acts = get_driver_activities s dr (Some st) (Some en) None;
             gs = fuse_gps_positions s dr st en
         in n = int (length (filter (\<lambda>g. first_match g acts \<noteq> None) gs)) \<and>
            s' = s\<lparr>driver_activities := driver_activities s'\<rparr> \<and>
            length (driver_activities s') = length (driver_activities s) \<and>
            (\<forall>k<length (driver_activities s).
               annotations (driver_activities s' ! k) =
                 annotations (driver_activities s ! k) @
                 map (\<lambda>g. (gps_id g, gps_timestamp g))
                   (filter (\<lambda>g. first_match g acts = Some (a_id (driver_activities s ! k))) gs) \<and>
               (driver_activities s' ! k)\<lparr>raw_data := None\<rparr> =
                 (driver_activities s ! k)\<lparr>raw_data := None\<rparr>) \<and>
            (\<forall>g i. first_match g acts = Some i \<longleftrightarrow>
               (\<exists>k<length acts. a_id (acts ! k) = i \<and>
                  start_time (acts ! k) \<le> gps_timestamp g \<and> gps_timestamp g \<le> end_time (acts ! k) \<and>
                  (\<forall>j<k. \<not> (start_time (acts ! j) \<le> gps_timestamp g \<and>
                              gps_timestamp g \<le> end_time (acts ! j))))) \<and>
            map start_time (driver_activities s') = map start_time (driver_activities s) \<and>
            map end_time (driver_activities s') = map end_time (driver_activities s) \<and>
            int (sum_list (map (\<lambda>a. length (annotations a)) (driver_activities s'))) =
              int (sum_list (map (\<lambda>a. length (annotations a)) (driver_activities s))) + n"
proof -
  define acts where "acts = get_driver_activities s dr (Some st) (Some en) None"
  define gs where "gs = fuse_gps_positions s dr st en"
  let ?f = "\<lambda>row. with_refs row (refs_of gs acts (a_id row))"
  from fuse_result [OF assms(1), of dr st en] assms(2)
  have s': "s' = s\<lparr>driver_activities := map ?f (driver_activities s)\<rparr>"
    and n: "n = int (length (filter (\<lambda>g. first_match g acts \<noteq> None) gs))"
    unfolding acts_def gs_def by simp_all
  have rows: "driver_activities s' = map ?f (driver_activities s)"
    unfolding s' by simp
  have frame: "s' = s\<lparr>driver_activities := driver_activities s'\<rparr>"
    unfolding s' by simp
  have len: "length (driver_activities s') = length (driver_activities s)"
    unfolding rows by simp
  have each: "\<forall>k<length (driver_activities s).
               annotations (driver_activities s' ! k) =
                 annotations (driver_activities s ! k) @
                 map (\<lambda>g. (gps_id g, gps_timestamp g))
                   (filter (\<lambda>g. first_match g acts = Some (a_id (driver_activities s ! k))) gs) \<and>
               (driver_activities s' ! k)\<lparr>raw_data := None\<rparr> =
                 (driver_activities s ! k)\<lparr>raw_data := None\<rparr>"
    unfolding rows
    by (simp add: annotations_with_refs refs_of_def) (simp add: with_refs_def)
  have fm: "\<forall>g i. first_match g acts = Some i \<longleftrightarrow>
               (\<exists>k<length acts. a_id (acts ! k) = i \<and>
                  start_time (acts ! k) \<le> gps_timestamp g \<and> gps_timestamp g \<le> end_time (acts ! k) \<and>
                  (\<forall>j<k. \<not> (start_time (acts ! j) \<le> gps_timestamp g \<and>
                              gps_timestamp g \<le> end_time (acts ! j))))"
    using first_match_meaning [of _ acts] unfolding covers_def by blast
  have st: "map start_time (driver_activities s') = map start_time (driver_activities s)"
    and en: "map end_time (driver_activities s') = map end_time (driver_activities s)"
    unfolding rows by simp_all
  have sub: "set acts \<subseteq> set (driver_activities s)"
    unfolding acts_def by (rule get_driver_activities_rows(1))
  have "sum_list (map (\<lambda>a. length (annotations a)) (driver_activities s')) =
        sum_list (map (\<lambda>row. length (annotations row) + length (refs_of gs acts (a_id row)))
                    (driver_activities s))"
    unfolding rows by (simp add: comp_def annotations_with_refs)
  also have "\<dots> = sum_list (map (\<lambda>a. length (annotations a)) (driver_activities s)) +
                   sum_list (map (\<lambda>row. length (refs_of gs acts (a_id row))) (driver_activities s))"
    by (rule sum_list_addf)
  finally have total: "int (sum_list (map (\<lambda>a. length (annotations a)) (driver_activities s'))) =
              int (sum_list (map (\<lambda>a. length (annotations a)) (driver_activities s))) + n"
    unfolding n refs_total [OF assms(1) sub] by simp
  from n frame len each fm st en total show ?thesis
    unfolding Let_def acts_def [symmetric] gs_def [symmetric] by blast
qed

theorem fuse_attaches_to_first_match_witness:
  "fuse_gps_with_activities
     (example_store [example_activity 1 1 DRIVING 540 600, example_activity 2 1 BREAK 600 630]
        [example_gps 1 1 585, example_gps 2 1 1000]) 1 0 1000 =
     (example_store [(example_activity 1 1 DRIVING 540 600)\<lparr>raw_data := Some [(1, 585)]\<rparr>,
                     example_activity 2 1 BREAK 600 630]
        [example_gps 1 1 585, example_gps 2 1 1000], 1) \<and>
   map end_time (driver_activities
     (example_store [(example_activity 1 1 DRIVING 540 600)\<lparr>raw_data := Some [(1, 585)]\<rparr>,
                     example_activity 2 1 BREAK 600 630]
        [example_gps 1 1 585, example_gps 2 1 1000])) =
   map end_time (driver_activities
     (example_store [example_activity 1 1 DRIVING 540 600, example_activity 2 1 BREAK 600 630]
        [example_gps 1 1 585, example_gps 2 1 1000])) \<and>
   int (sum_list (map (\<lambda>a. length (annotations a)) (driver_activities
     (example_store [(example_activity 1 1 DRIVING 540 600)\<lparr>raw_data := Some [(1, 585)]\<rparr>,
                     example_activity 2 1 BREAK 600 630]
        [example_gps 1 1 585, example_gps 2 1 1000])))) =
   int (sum_list (map (\<lambda>a. length (annotations a)) (driver_activities
     (example_store [example_activity 1 1 DRIVING 540 600, example_activity 2 1 BREAK 600 630]
        [example_gps 1 1 585, example_gps 2 1 1000])))) + 1"
proof -
  let ?A = "example_activity 1 1 DRIVING 540 600"
  let ?B = "example_activity 2 1 BREAK 600 630"
  let ?A' = "?A\<lparr>raw_data := Some [(1, 585)]\<rparr>"
  let ?gs = "[example_gps 1 1 585, example_gps 2 1 1000]"
  let ?s = "example_store [?A, ?B] ?gs"
  let ?s' = "example_store [?A', ?B] ?gs"
  have d: "distinct (map a_id (driver_activities ?s))"
    by (simp add: example_store_def example_activity_def)
  have a: "get_driver_activities ?s 1 (Some 0) (Some 1000) None = [?B, ?A]"
    by (simp add: get_driver_activities_def example_store_def example_activity_def)
  have g: "fuse_gps_positions ?s 1 0 1000 = ?gs"
    by (simp add: fuse_gps_positions_def example_store_def example_gps_def new_gps_position_def
          example_position_def)
  have l: "associate_all ?gs [?B, ?A] 0 = ([?B, ?A'], 1)"
    by (simp add: example_gps_def new_gps_position_def example_position_def example_activity_def)
  have f: "flush_activities ?s [?B, ?A'] = ?s'"
    by (simp add: flush_activities_def example_store_def example_activity_def)
  have e: "fuse_gps_with_activities ?s 1 0 1000 = (?s', 1)"
    unfolding fuse_gps_with_activities_def Let_def a g l by (simp add: f)
  from fuse_attaches_to_first_match [OF d e]
  have "map end_time (driver_activities ?s') = map end_time (driver_activities ?s)"
    and "int (sum_list (map (\<lambda>a. length (annotations a)) (driver_activities ?s'))) =
         int (sum_list (map (\<lambda>a. length (annotations a)) (driver_activities ?s))) + 1"
    unfolding Let_def by blast+
  with e show ?thesis by blast
qed

lemma associate_find:
  "associate g acts =
     (case find (covers g) acts of
        None \<Rightarrow> (acts, False)
      | Some a \<Rightarrow>
          (write_row (covers g)
             (a\<lparr>raw_data := Some (annotations a @ [(gps_id g, gps_timestamp g)])\<rparr>) acts,
           True))"
proof (induction acts)
  case Nil
  show ?case by simp
next
  case (Cons a acts)
  show ?case
  proof (cases "covers g a")
    case True
    then have "start_time a \<le> gps_timestamp g \<and> gps_timestamp g \<le> end_time a"
      by (simp add: covers_def)
    with True show ?thesis by (simp add: annotations_def)
  next
    case False
    then have "\<not> (start_time a \<le> gps_timestamp g \<and> gps_timestamp g \<le> end_time a)"
      by (simp add: covers_def)
    then have step: "associate g (a # acts) =
                       (let (rest', found) = associate g acts in (a # rest', found))"
      by (simp only: associate.simps if_False)
    show ?thesis
      unfolding step Cons.IH using False by (simp split: option.splits)
  qed
qed

lemma write_row_found_eq:
  "find P xs = Some b \<Longrightarrow> write_row P y xs = write_row (\<lambda>x. x = b) y xs"
proof (induction xs)
  case Nil
  then show ?case by simp
next
  case (Cons x xs)
  show ?case
  proof (cases "P x")
    case True
    with Cons.prems show ?thesis by simp
  next
    case False
    with Cons.prems have f: "find P xs = Some b" by simp
    then have "P b" by (rule find_Some_P)
    with False have "x \<noteq> b" by auto
    with False Cons.IH [OF f] show ?thesis by simp
  qed
qed

lemma write_row_keeps:
  "a \<in> set xs \<Longrightarrow> \<not> P a \<Longrightarrow> a \<in> set (write_row P y xs)"
  by (induction xs) auto

lemma get_driver_activities_descending:
  "sorted_wrt (\<lambda>x y. start_time y \<le> start_time x) (get_driver_activities s d sd ed ty)"
proof -
  have "sorted (map (\<lambda>a. - start_time a) (get_driver_activities s d sd ed ty))"
    unfolding get_driver_activities_def by (rule sorted_sort_key)
  then show ?thesis by (simp add: sorted_map)
qed

lemma first_covering_latest_start:
  assumes "sorted_wrt (\<lambda>x y. start_time y \<le> start_time x) acts"
    and "B \<in> set acts" "covers g B" "start_time B = gps_timestamp g"
    and "\<forall>x\<in>set acts. start_time x = gps_timestamp g \<longrightarrow> x = B"
  shows "find (covers g) acts = Some B"
  using assms
proof (induction acts)
  case Nil
  from Nil.prems(2) show ?case by simp
next
  case (Cons x acts)
  have sorted_tl: "sorted_wrt (\<lambda>x y. start_time y \<le> start_time x) acts"
    and above: "\<forall>y\<in>set acts. start_time y \<le> start_time x"
    using Cons.prems(1) by simp_all
  have uniq_tl: "\<forall>y\<in>set acts. start_time y = gps_timestamp g \<longrightarrow> y = B"
    using Cons.prems(5) by (meson list.set_intros(2))
  have uniq_hd: "start_time x = gps_timestamp g \<longrightarrow> x = B"
    using Cons.prems(5) by (meson list.set_intros(1))
  show ?case
  proof (cases "covers g x")
    case True
    have "x = B"
    proof (rule ccontr)
      assume "x \<noteq> B"
      then have "B \<in> set acts" using Cons.prems(2) by (metis set_ConsD)
      then have "start_time B \<le> start_time x" using above by blast
      moreover have "start_time x \<le> gps_timestamp g" using True unfolding covers_def by blast
      ultimately have "start_time x = gps_timestamp g" using Cons.prems(4) by linarith
      with uniq_hd \<open>x \<noteq> B\<close> show False by blast
    qed
    then show ?thesis using True by (simp only: find.simps if_True)
  next
    case False
    then have "x \<noteq> B" using Cons.prems(3) by blast
    then have "B \<in> set acts" using Cons.prems(2) by (metis set_ConsD)
    from Cons.IH [OF sorted_tl this Cons.prems(3,4) uniq_tl]
    show ?thesis using False by (simp only: find.simps if_False)
  qed
qed

section \<open>C10: a position at a shared boundary\<close>

text \<open>
  When the stored intervals are pairwise free of overlap and each starts before it ends, no
  two loaded activities start at the same instant.
\<close>

lemma non_overlapping_pair:
  assumes "non_overlapping rows" "x \<in> set rows" "y \<in> set rows" "x \<noteq> y"
  shows "\<not> overlapping (a_driver_id x) (start_time x) (end_time x) y"
  using assms
proof (induction rows)
  case Nil
  from Nil.prems(2) show ?case by simp
next
  case (Cons a rows)
  have tl: "non_overlapping rows"
    and hd: "\<forall>b\<in>set rows. \<not> overlapping (a_driver_id a) (start_time a) (end_time a) b"
    using Cons.prems(1) by simp_all
  consider "x = a" "y \<in> set rows" | "y = a" "x \<in> set rows" | "x \<in> set rows" "y \<in> set rows"
    using Cons.prems(2,3,4) by (metis set_ConsD)
  then show ?case
  proof cases
    case 1
    with hd show ?thesis by blast
  next
    case 2
    with hd have "\<not> overlapping (a_driver_id y) (start_time y) (end_time y) x" by blast
    then show ?thesis using overlapping_sym [of x y] by blast
  next
    case 3
    from Cons.IH [OF tl 3 Cons.prems(4)] show ?thesis .
  qed
qed

lemma loaded_start_unique:
  assumes inv: "non_overlapping (driver_activities s)"
    and proper: "\<forall>a\<in>set (driver_activities s). start_time a < end_time a"
    and B: "B \<in> set (get_driver_activities s d sd ed ty)"
  shows "\<forall>x\<in>set (get_driver_activities s d sd ed ty). start_time x = start_time B \<longrightarrow> x = B"
proof (intro ballI impI)
  fix x assume x: "x \<in> set (get_driver_activities s d sd ed ty)"
    and st: "start_time x = start_time B"
  have xin: "x \<in> set (driver_activities s)" and xd: "a_driver_id x = d"
    using x by (auto simp: get_driver_activities_def)
  have Bin: "B \<in> set (driver_activities s)" and Bd: "a_driver_id B = d"
    using B by (auto simp: get_driver_activities_def)
  have "start_time x < end_time x" "start_time B < end_time B"
    using proper xin Bin by blast+
  then have "overlapping (a_driver_id x) (start_time x) (end_time x) B"
    using st xd Bd by (simp add: overlapping_def)
  then show "x = B"
    using non_overlapping_pair [OF inv xin Bin] by blast
qed

text \<open>
  Claim C10. Let two loaded activities meet at the instant \<open>t\<close>: \<open>A\<close> starts before \<open>t\<close> and
  ends at \<open>t\<close>, \<open>B\<close> starts at \<open>t\<close> and is the only loaded activity that does. Both
  contain \<open>t\<close>, and since activities are scanned in descending order of \<open>start_time\<close>, the
  first one that contains a position with timestamp \<open>t\<close> is \<open>B\<close>: the reference goes to
  \<open>B\<close>, the later interval, and \<open>A\<close> is left as it is.
\<close>

theorem boundary_ping_goes_to_later_activity:
  assumes "A \<in> set (get_driver_activities s dr sd ed ty)"
    and "B \<in> set (get_driver_activities s dr sd ed ty)"
    and "start_time A < t" and "end_time A = t"
    and "start_time B = t" and "t \<le> end_time B"
    and "gps_timestamp g = t"
    and "\<forall>x\<in>set (get_driver_activities s dr sd ed ty). start_time x = t \<longrightarrow> x = B"
  shows "start_time A \<le> gps_timestamp g \<and> gps_timestamp g \<le> end_time A \<and>
         start_time B \<le> gps_timestamp g \<and> gps_timestamp g \<le> end_time B \<and>
         find (\<lambda>a. start_time a \<le> gps_timestamp g \<and> gps_timestamp g \<le> end_time a)
           (get_driver_activities s dr sd ed ty) = Some B \<and>
         associate g (get_driver_activities s dr sd ed ty) =
           (write_row (\<lambda>x. x = B)
              (B\<lparr>raw_data := Some (annotations B @ [(gps_id g, t)])\<rparr>)
              (get_driver_activities s dr sd ed ty), True) \<and>
         A \<in> set (fst (associate g (get_driver_activities s dr sd ed ty)))"
proof -
  let ?acts = "get_driver_activities s dr sd ed ty"
  have cA: "start_time A \<le> gps_timestamp g \<and> gps_timestamp g \<le> end_time A"
    using assms(3,4,7) by simp
  have cB: "covers g B" using assms(5,6,7) by (simp add: covers_def)
  have uniq: "\<forall>x\<in>set ?acts. start_time x = gps_timestamp g \<longrightarrow> x = B"
    using assms(7,8) by simp
  have sB: "start_time B = gps_timestamp g" using assms(5,7) by simp
  have f: "find (covers g) ?acts = Some B"
    by (rule first_covering_latest_start
          [OF get_driver_activities_descending assms(2) cB sB uniq])
  have f': "find (\<lambda>a. start_time a \<le> gps_timestamp g \<and> gps_timestamp g \<le> end_time a) ?acts
              = Some B"
    using f by (simp add: covers_def [abs_def])
  have as: "associate g ?acts =
              (write_row (\<lambda>x. x = B)
                 (B\<lparr>raw_data := Some (annotations B @ [(gps_id g, t)])\<rparr>) ?acts, True)"
    unfolding associate_find f using write_row_found_eq [OF f] assms(7) by simp
  have "A \<noteq> B" using assms(3,5) by auto
  then have "A \<in> set (fst (associate g ?acts))"
    unfolding as using assms(1) by (simp add: write_row_keeps)
  with cA cB f' as show ?thesis by (simp add: covers_def)
qed

theorem boundary_ping_goes_to_later_activity_witness:
  "associate (example_gps 1 1 600)
     (get_driver_activities
        (example_store [example_activity 1 1 DRIVING 540 600, example_activity 2 1 BREAK 600 630]
           [example_gps 1 1 600]) 1 (Some 0) (Some 1000) None) =
     ([(example_activity 2 1 BREAK 600 630)\<lparr>raw_data := Some [(1, 600)]\<rparr>,
       example_activity 1 1 DRIVING 540 600], True) \<and>
   fuse_gps_with_activities
     (example_store [example_activity 1 1 DRIVING 540 600, example_activity 2 1 BREAK 600 630]
        [example_gps 1 1 600]) 1 0 1000 =
     (example_store [example_activity 1 1 DRIVING 540 600,
                     (example_activity 2 1 BREAK 600 630)\<lparr>raw_data := Some [(1, 600)]\<rparr>]
        [example_gps 1 1 600], 1)"
proof -
  let ?A = "example_activity 1 1 DRIVING 540 600"
  let ?B = "example_activity 2 1 BREAK 600 630"
  let ?B' = "?B\<lparr>raw_data := Some [(1, 600)]\<rparr>"
  let ?g = "example_gps 1 1 600"
  let ?s = "example_store [?A, ?B] [?g]"
  have a: "get_driver_activities ?s 1 (Some 0) (Some 1000) None = [?B, ?A]"
    by (simp add: get_driver_activities_def example_store_def example_activity_def)
  have h: "?A \<in> set (get_driver_activities ?s 1 (Some 0) (Some 1000) None)"
    "?B \<in> set (get_driver_activities ?s 1 (Some 0) (Some 1000) None)"
    "start_time ?A < 600" "end_time ?A = 600" "start_time ?B = 600" "600 \<le> end_time ?B"
    "gps_timestamp ?g = 600"
    "\<forall>x\<in>set (get_driver_activities ?s 1 (Some 0) (Some 1000) None). start_time x = 600 \<longrightarrow> x = ?B"
    unfolding a
    by (simp_all add: example_activity_def example_gps_def new_gps_position_def example_position_def)
  from boundary_ping_goes_to_later_activity [OF h]
  have "associate ?g (get_driver_activities ?s 1 (Some 0) (Some 1000) None) =
           (write_row (\<lambda>x. x = ?B)
              (?B\<lparr>raw_data := Some (annotations ?B @ [(gps_id ?g, 600)])\<rparr>)
              (get_driver_activities ?s 1 (Some 0) (Some 1000) None), True)"
    by blast
  then have as: "associate ?g (get_driver_activities ?s 1 (Some 0) (Some 1000) None) =
      ([?B', ?A], True)"
    unfolding a
    by (simp add: annotations_def example_activity_def example_gps_def new_gps_position_def)
  have g: "fuse_gps_positions ?s 1 0 1000 = [?g]"
    by (simp add: fuse_gps_positions_def example_store_def example_gps_def new_gps_position_def
          example_position_def)
  have f: "flush_activities ?s [?B', ?A] = example_store [?A, ?B'] [?g]"
    by (simp add: flush_activities_def example_store_def example_activity_def)
  have l: "associate_all [?g] (get_driver_activities ?s 1 (Some 0) (Some 1000) None) 0 =
             ([?B', ?A], 1)"
    by (simp add: as)
  have e: "fuse_gps_with_activities ?s 1 0 1000 = (example_store [?A, ?B'] [?g], 1)"
    unfolding fuse_gps_with_activities_def Let_def g l by (simp add: a f)
  from as e show ?thesis by blast
qed

end
